theory Spec2Isabelle
  imports Complex_Main "HOL-Library.Word" "HOL-Library.Sublist"
begin

section \<open>Matrix transposition benchmark: host functionality\<close>

text \<open>
  The host arrays are raw pointers to \<open>HOST_DATA_TYPE\<close>; a pointer is modelled as the
  function from offsets to the values stored there, and the values as real numbers.
  Offsets such as \<open>i * matrix_size + j\<close> are computed in \<open>cl_uint\<close>, that is modulo
  \<open>2 ^ 32\<close>: the \<open>int\<close> counter is converted to the unsigned type of \<open>matrix_size\<close>.
\<close>

type_synonym host_array = "nat \<Rightarrow> real"

definition cl_uint :: "nat \<Rightarrow> nat" where
  "cl_uint x = x mod 2 ^ 32"

definition offset :: "nat \<Rightarrow> nat \<Rightarrow> nat \<Rightarrow> nat" where
  "offset n i j = cl_uint (i * n + j)"

text \<open>
  \<open>HOST_DATA_TYPE\<close> comes from \<open>parameters.h\<close>, which is not among the sources: a
  floating-point type. A store to a host array converts the value to that type, and an
  addition of doubles rounds its sum to a double. Both roundings are parameters: \<open>to_host\<close>
  gives the value of \<open>HOST_DATA_TYPE\<close> that a store keeps, \<open>to_double\<close> the double that an
  operation on doubles returns. Negation changes the sign only, and the conversion of a
  \<open>HOST_DATA_TYPE\<close> to double keeps the value.
\<close>

record arithmetic =
  to_host :: "real \<Rightarrow> real"
  to_double :: "real \<Rightarrow> real"

text \<open>
  The counters \<open>i\<close> and \<open>j\<close> of the nested iteration are \<open>int\<close>, compared with the
  \<open>cl_uint\<close> bound after conversion. With a bound above \<open>INT_MAX\<close> a counter is
  incremented at \<open>INT_MAX\<close>, which is undefined: \<open>None\<close>.
\<close>

definition INT_MAX :: nat where
  "INT_MAX = 2147483647"

text \<open>
  \<open>generateInputData\<close> draws from \<open>std::uniform_real_distribution\<close> over a generator
  seeded with 7. The sequence of draws, which are doubles, is a parameter \<open>dis\<close>; the
  third component of the loop state counts the draws made so far. The two assignments of
  the body: the draw is stored in \<open>A\<close>; the stored value is read back, negated, added to
  \<open>1.0\<close> in double, and the sum is stored in \<open>B\<close>. \<open>A\<close> and \<open>B\<close> are two arrays that do not
  overlap.
\<close>

definition generate_cell ::
  "arithmetic \<Rightarrow> (nat \<Rightarrow> real) \<Rightarrow> nat \<Rightarrow> nat \<Rightarrow> nat \<Rightarrow> host_array \<times> host_array \<times> nat
     \<Rightarrow> host_array \<times> host_array \<times> nat" where
  "generate_cell ar dis n i j st =
     (case st of (A, B, k) \<Rightarrow>
        let A' = A(offset n i j := to_host ar (dis k));
            B' = B(offset n j i := to_host ar (to_double ar (- A' (offset n i j) + 1)))
        in (A', B', Suc k))"

definition generateInputData ::
  "arithmetic \<Rightarrow> (nat \<Rightarrow> real) \<Rightarrow> nat \<Rightarrow> host_array \<Rightarrow> host_array
     \<Rightarrow> (host_array \<times> host_array) option" where
  "generateInputData ar dis matrix_size A B =
     (if INT_MAX < matrix_size then None
      else case fold (\<lambda>i. fold (generate_cell ar dis matrix_size i) [0..<matrix_size])
                     [0..<matrix_size] (A, B, 0)
           of (A', B', k) \<Rightarrow> Some (A', B'))"

subsection \<open>Summary statistics of the timings\<close>

record ExecutionTimings =
  transferTimings :: "real list"
  calculationTimings :: "real list"

text \<open>\<open>std::accumulate\<close> with initial value \<open>0.0\<close>: a left fold.\<close>

definition accumulate :: "real list \<Rightarrow> real \<Rightarrow> real" where
  "accumulate xs init = fold (\<lambda>x acc. acc + x) xs init"

text \<open>
  \<open>std::min_element\<close> returns the position of the first smallest element, and the end
  iterator on an empty range; dereferencing it there is undefined, which is \<open>None\<close>.
\<close>

fun min_element :: "real list \<Rightarrow> real option" where
  "min_element [] = None"
| "min_element (x # xs) = Some (fold (\<lambda>y smallest. if y < smallest then y else smallest) xs x)"

text \<open>
  A division of doubles by zero gives an infinity or a NaN, not a number: \<open>None\<close>.
\<close>

definition fdiv :: "real \<Rightarrow> real \<Rightarrow> real option" where
  "fdiv x y = (if y = 0 then None else Some (x / y))"

record summary =
  avgTransferTime :: real
  minTransferTime :: real
  avgCalculationTime :: real
  minCalculationTime :: real
  avgCalcFLOPS :: "real option"
  avgTotalFLOPS :: "real option"
  minCalcFLOPS :: "real option"
  minTotalFLOPS :: "real option"

text \<open>
  \<open>printResults\<close> prints the eight numbers of \<open>summary\<close>; the model returns them. On an
  empty vector the average is \<open>0.0 / 0\<close> and the minimum dereferences the end iterator:
  \<open>None\<close>.
\<close>

definition printResults :: "ExecutionTimings \<Rightarrow> nat \<Rightarrow> summary option" where
  "printResults results matrixSize =
     (let flops = real (cl_uint (matrixSize * matrixSize)) in
      case (fdiv (accumulate (transferTimings results) 0)
                 (real (length (transferTimings results))),
            min_element (transferTimings results),
            fdiv (accumulate (calculationTimings results) 0)
                 (real (length (calculationTimings results))),
            min_element (calculationTimings results))
      of (Some avgT, Some minT, Some avgC, Some minC) \<Rightarrow>
           Some \<lparr> avgTransferTime = avgT, minTransferTime = minT,
                  avgCalculationTime = avgC, minCalculationTime = minC,
                  avgCalcFLOPS = fdiv flops avgC,
                  avgTotalFLOPS = fdiv flops (avgC + avgT),
                  minCalcFLOPS = fdiv flops minC,
                  minTotalFLOPS = fdiv flops (minC + minT) \<rparr>
       | _ \<Rightarrow> None)"

text \<open>A concrete input used further down: an array of zeros.\<close>

definition zero_array :: host_array where
  "zero_array = (\<lambda>p. 0)"

section \<open>Matrix transposition benchmark: execution on the CPU\<close>

text \<open>
  \<open>transpose::fpga_execution::cpu::calculate\<close>. The declarations of the settings, of the
  data object and of the data handler are not among the sources; the records hold the
  members that \<open>calculate\<close> reads. The data handler's \<open>exchangeData\<close> is a parameter: a
  function on the data. \<open>BLOCK_SIZE\<close> is a compile-time constant and a parameter as well.
  The number of repetitions is a natural number, counted up by the variable
  \<open>repetition\<close>.
\<close>

datatype DataHandlerType = diagonal | pq | other_handler

record TransposeProgramSettings =
  numRepetitions :: nat
  dataHandlerIdentifier :: DataHandlerType

record TransposeData =
  data_A :: host_array
  data_B :: host_array
  data_result :: host_array
  blockSize :: nat
  numBlocks :: nat

type_synonym TransposeExecutionTimings = ExecutionTimings

text \<open>The two \<open>std::runtime_error\<close>s that \<open>calculate\<close> throws.\<close>

datatype runtime_error =
    BlockSizeHardcoded nat
  | DataHandlerNotSupported DataHandlerType

text \<open>
  What one node does that others can observe, in program order; every event carries the
  value of the loop variable \<open>repetition\<close>.
\<close>

datatype event = MPI_Barrier nat | ExchangeData nat | TransposeBlocks nat

text \<open>
  The node's state: its data, the reading of \<open>std::chrono::high_resolution_clock\<close> in
  seconds, and the events so far. The environment says by how much the clock reading
  advances across each call of repetition \<open>k\<close>, and what
  \<open>ulong local_matrix_width = std::sqrt(data.numBlocks)\<close> leaves in the variable: the
  square root is taken of a double and its result converted back, so that its value for a
  given number of blocks is the library's.
\<close>

record world =
  node_data :: TransposeData
  clock :: real
  events :: "event list"

record environment =
  barrier_seconds :: "nat \<Rightarrow> real"
  exchange_seconds :: "nat \<Rightarrow> real"
  compute_seconds :: "nat \<Rightarrow> real"
  exchange_back_seconds :: "nat \<Rightarrow> real"
  std_sqrt :: "nat \<Rightarrow> nat"

definition now :: "world \<Rightarrow> real" where
  "now w = clock w"

definition barrier :: "environment \<Rightarrow> nat \<Rightarrow> world \<Rightarrow> world" where
  "barrier env k w =
     w\<lparr> clock := clock w + barrier_seconds env k, events := events w @ [MPI_Barrier k] \<rparr>"

definition exchangeData ::
  "(TransposeData \<Rightarrow> TransposeData) \<Rightarrow> real \<Rightarrow> nat \<Rightarrow> world \<Rightarrow> world" where
  "exchangeData handler seconds k w =
     w\<lparr> node_data := handler (node_data w), clock := clock w + seconds,
        events := events w @ [ExchangeData k] \<rparr>"

text \<open>
  \<open>mkl_somatadd('R', 'T', 'N', m, n, alpha, A, lda, beta, B, ldb, C, ldc)\<close> of the MKL:
  \<open>C := alpha * transpose A + beta * B\<close> on row-major matrices of \<open>m\<close> rows and \<open>n\<close>
  columns. The pointers \<open>&data.A[offset]\<close> are an array with the offset.
\<close>

definition mkl_somatadd ::
  "nat \<Rightarrow> nat \<Rightarrow> real \<Rightarrow> host_array \<Rightarrow> nat \<Rightarrow> nat \<Rightarrow> real \<Rightarrow> host_array \<Rightarrow> nat \<Rightarrow> nat
     \<Rightarrow> host_array \<Rightarrow> nat \<Rightarrow> nat \<Rightarrow> host_array" where
  "mkl_somatadd m n alpha A a_off lda beta B b_off ldb C c_off ldc =
     fold (\<lambda>i. fold (\<lambda>j C. C(c_off + i * ldc + j :=
                                 alpha * A (a_off + j * lda + i) + beta * B (b_off + i * ldb + j)))
                     [0..<n])
          [0..<m] C"

text \<open>
  The \<open>switch\<close> over the data handler. The iterations step \<open>offset\<close> by \<open>BLOCK_SIZE * BLOCK_SIZE\<close>,
  and \<open>yoffset\<close> and \<open>xoffset\<close> by \<open>BLOCK_SIZE\<close>; the model counts the blocks. The offsets
  are \<open>ulong\<close>. The \<open>default\<close> branch throws.
\<close>

definition transpose_diagonal :: "nat \<Rightarrow> TransposeData \<Rightarrow> host_array" where
  "transpose_diagonal BLOCK_SIZE d =
     fold (\<lambda>block C.
             let offset = block * (BLOCK_SIZE * BLOCK_SIZE) in
             mkl_somatadd BLOCK_SIZE BLOCK_SIZE 1 (data_A d) offset BLOCK_SIZE
                          1 (data_B d) offset BLOCK_SIZE C offset BLOCK_SIZE)
          [0..<numBlocks d] (data_result d)"

definition transpose_pq :: "nat \<Rightarrow> environment \<Rightarrow> TransposeData \<Rightarrow> host_array" where
  "transpose_pq BLOCK_SIZE env d =
     (let local_matrix_width = std_sqrt env (numBlocks d) in
      fold (\<lambda>yblock.
         fold (\<lambda>xblock C.
                 let yoffset = yblock * BLOCK_SIZE;
                     xoffset = xblock * BLOCK_SIZE;
                     toffset = xoffset * BLOCK_SIZE * local_matrix_width + yoffset;
                     offset = yoffset * BLOCK_SIZE * local_matrix_width + xoffset
                 in mkl_somatadd BLOCK_SIZE BLOCK_SIZE
                      1 (data_A d) toffset (BLOCK_SIZE * local_matrix_width)
                      1 (data_B d) offset (BLOCK_SIZE * local_matrix_width)
                      C offset (BLOCK_SIZE * local_matrix_width))
              [0..<local_matrix_width])
           [0..<local_matrix_width] (data_result d))"

definition transpose_blocks ::
  "nat \<Rightarrow> environment \<Rightarrow> DataHandlerType \<Rightarrow> TransposeData
     \<Rightarrow> runtime_error + TransposeData" where
  "transpose_blocks BLOCK_SIZE env h d =
     (case h of
        diagonal \<Rightarrow> Inr (d\<lparr> data_result := transpose_diagonal BLOCK_SIZE d \<rparr>)
      | pq \<Rightarrow> Inr (d\<lparr> data_result := transpose_pq BLOCK_SIZE env d \<rparr>)
      | other_handler \<Rightarrow> Inl (DataHandlerNotSupported h))"

text \<open>
  The body of the loop over \<open>repetition\<close>. An exception leaves the loop with the state
  reached so far.
\<close>

definition repetition_body ::
  "nat \<Rightarrow> environment \<Rightarrow> (TransposeData \<Rightarrow> TransposeData) \<Rightarrow> TransposeProgramSettings \<Rightarrow> nat
     \<Rightarrow> TransposeExecutionTimings \<Rightarrow> world
     \<Rightarrow> (runtime_error + TransposeExecutionTimings) \<times> world" where
  "repetition_body BLOCK_SIZE env handler settings k timings w =
     (let transferTime = 0;
          w1 = barrier env k w;
          startCalculation = now w1;
          w2 = exchangeData handler (exchange_seconds env k) k w1
      in case transpose_blocks BLOCK_SIZE env (dataHandlerIdentifier settings) (node_data w2) of
           Inl e \<Rightarrow> (Inl e, w2)
         | Inr d \<Rightarrow>
             let w3 = w2\<lparr> node_data := d, clock := clock w2 + compute_seconds env k,
                          events := events w2 @ [TransposeBlocks k] \<rparr>;
                 endCalculation = now w3;
                 calculationTime = endCalculation - startCalculation;
                 timings1 = timings\<lparr> calculationTimings :=
                                         calculationTimings timings @ [calculationTime] \<rparr>;
                 w4 = exchangeData handler (exchange_back_seconds env k) k w3;
                 timings2 = timings1\<lparr> transferTimings :=
                                          transferTimings timings1 @ [transferTime] \<rparr>
             in (Inr timings2, w4))"

fun repetition_loop ::
  "nat \<Rightarrow> environment \<Rightarrow> (TransposeData \<Rightarrow> TransposeData) \<Rightarrow> TransposeProgramSettings
     \<Rightarrow> nat list \<Rightarrow> TransposeExecutionTimings \<Rightarrow> world
     \<Rightarrow> (runtime_error + TransposeExecutionTimings) \<times> world" where
  "repetition_loop BLOCK_SIZE env handler settings [] timings w = (Inr timings, w)"
| "repetition_loop BLOCK_SIZE env handler settings (k # ks) timings w =
     (case repetition_body BLOCK_SIZE env handler settings k timings w of
        (Inl e, w') \<Rightarrow> (Inl e, w')
      | (Inr timings', w') \<Rightarrow> repetition_loop BLOCK_SIZE env handler settings ks timings' w')"

definition calculate ::
  "nat \<Rightarrow> environment \<Rightarrow> (TransposeData \<Rightarrow> TransposeData) \<Rightarrow> TransposeProgramSettings
     \<Rightarrow> world \<Rightarrow> (runtime_error + TransposeExecutionTimings) \<times> world" where
  "calculate BLOCK_SIZE env handler settings w =
     (if blockSize (node_data w) \<noteq> BLOCK_SIZE then (Inl (BlockSizeHardcoded BLOCK_SIZE), w)
      else repetition_loop BLOCK_SIZE env handler settings [0..<numRepetitions settings]
             \<lparr> transferTimings = [], calculationTimings = [] \<rparr> w)"

text \<open>
  The accounting that the harness contract describes, for repetition \<open>k\<close>: both exchanges
  of blocks count as transfer time, the computation alone as calculation time.
\<close>

definition accounted_as_contract :: "environment \<Rightarrow> nat \<Rightarrow> ExecutionTimings \<Rightarrow> bool" where
  "accounted_as_contract env k t =
     (transferTimings t ! k = exchange_seconds env k + exchange_back_seconds env k
      \<and> calculationTimings t ! k = compute_seconds env k)"

text \<open>
  A concrete run: one block of size 1, one repetition; the barrier takes 1 second, the
  exchange 5, the computation 3, the exchange back 7; the square root of the one block
  is 1.
\<close>

definition sample_environment :: environment where
  "sample_environment =
     \<lparr> barrier_seconds = (\<lambda>k. 1), exchange_seconds = (\<lambda>k. 5),
       compute_seconds = (\<lambda>k. 3), exchange_back_seconds = (\<lambda>k. 7),
       std_sqrt = (\<lambda>blocks. 1) \<rparr>"

definition sample_data :: TransposeData where
  "sample_data =
     \<lparr> data_A = zero_array, data_B = zero_array, data_result = zero_array,
       blockSize = 1, numBlocks = 1 \<rparr>"

definition sample_world :: world where
  "sample_world = \<lparr> node_data = sample_data, clock = 0, events = [] \<rparr>"

definition sample_settings :: "nat \<Rightarrow> TransposeProgramSettings" where
  "sample_settings r = \<lparr> numRepetitions = r, dataHandlerIdentifier = diagonal \<rparr>"

definition same_data :: "TransposeData \<Rightarrow> TransposeData" where
  "same_data d = d"

section \<open>LINPACK benchmark: execution of the kernel\<close>

text \<open>
  \<open>bm_execution::calculate\<close> of the LINPACK host code. The configuration carries the
  OpenCL context, device and program, which the model leaves out, the matrix size and the
  number of repetitions. The declaration of its \<open>ExecutionTimings\<close> is not among the
  sources; \<open>calculate\<close> builds it from the one vector \<open>executionTimes\<close>. (The header with
  \<open>looplength\<close> and \<open>messageSize\<close> declares the timings of another \<open>calculate\<close>, which takes
  a message size and a loop length.)
\<close>

record ExecutionConfiguration =
  repetitions :: nat
  matrixSize :: nat

record LinpackExecutionTimings =
  timings :: "real list"

text \<open>
  The commands on the command queue, in order. A write carries the values written to
  \<open>Buffer_a\<close>, a kernel launch the contents of \<open>Buffer_a\<close> that the kernel starts from.
\<close>

datatype command =
    EnqueueWriteBuffer_a "real list"
  | EnqueueTask_gefa "real list"
  | EnqueueReadBuffer_a
  | EnqueueReadBuffer_pivot
  | Gesl_ref

record linpack_state =
  host_A :: "real list"
  host_b :: "real list"
  host_ipvt :: "int list"
  Buffer_a :: "real list"
  Buffer_pivot :: "int list"
  host_clock :: real
  commands :: "command list"

text \<open>
  What the OpenCL runtime and the device contribute: the error codes of the kernel's
  construction and of the three \<open>setArg\<close> calls, the kernel \<open>gefa\<close> as a function of its
  third argument and of the two buffers, and the seconds that a write and a kernel run
  take in repetition \<open>i\<close>. \<open>gesl_ref\<close> is declared in \<open>linpack_functionality.hpp\<close> and is a
  parameter too: a function of \<open>a\<close>, \<open>b\<close>, \<open>ipvt\<close>, \<open>n\<close> and \<open>lda\<close> that gives the three
  arrays back.
\<close>

record opencl_runtime =
  err_kernel :: int
  err_arg0 :: int
  err_arg1 :: int
  err_arg2 :: int
  gefa :: "nat \<Rightarrow> real list \<times> int list \<Rightarrow> real list \<times> int list"
  write_seconds :: "nat \<Rightarrow> real"
  kernel_seconds :: "nat \<Rightarrow> real"

type_synonym gesl =
  "real list \<Rightarrow> real list \<Rightarrow> int list \<Rightarrow> nat \<Rightarrow> nat \<Rightarrow> real list \<times> real list \<times> int list"

definition CL_SUCCESS :: int where
  "CL_SUCCESS = 0"

text \<open>\<open>ASSERT_CL\<close> ends the program with the error code.\<close>

datatype cl_abort = CL_error int

definition enqueueWriteBuffer_a :: "opencl_runtime \<Rightarrow> nat \<Rightarrow> nat \<Rightarrow> linpack_state \<Rightarrow> linpack_state"
  where
  "enqueueWriteBuffer_a rt n i st =
     st\<lparr> Buffer_a := take (n * n) (host_A st),
         host_clock := host_clock st + write_seconds rt i,
         commands := commands st @ [EnqueueWriteBuffer_a (take (n * n) (host_A st))] \<rparr>"

definition enqueueTask_gefa :: "opencl_runtime \<Rightarrow> nat \<Rightarrow> nat \<Rightarrow> linpack_state \<Rightarrow> linpack_state"
  where
  "enqueueTask_gefa rt blocks i st =
     (case gefa rt blocks (Buffer_a st, Buffer_pivot st) of
        (a, pivot) \<Rightarrow>
          st\<lparr> Buffer_a := a, Buffer_pivot := pivot,
              host_clock := host_clock st + kernel_seconds rt i,
              commands := commands st @ [EnqueueTask_gefa (Buffer_a st)] \<rparr>)"

definition kernel_repetition ::
  "opencl_runtime \<Rightarrow> nat \<Rightarrow> nat \<Rightarrow> nat \<Rightarrow> real list \<times> linpack_state \<Rightarrow> real list \<times> linpack_state"
  where
  "kernel_repetition rt n blocks i acc =
     (case acc of (executionTimes, st) \<Rightarrow>
        let st1 = enqueueWriteBuffer_a rt n i st;
            t1 = host_clock st1;
            st2 = enqueueTask_gefa rt blocks i st1;
            t2 = host_clock st2;
            timespan = t2 - t1
        in (executionTimes @ [timespan], st2))"

definition execute_kernels ::
  "opencl_runtime \<Rightarrow> nat \<Rightarrow> ExecutionConfiguration \<Rightarrow> linpack_state \<Rightarrow> real list \<times> linpack_state"
  where
  "execute_kernels rt LOCAL_MEM_BLOCK_LOG config st =
     fold (kernel_repetition rt (matrixSize config)
             (cl_uint (matrixSize config div 2 ^ LOCAL_MEM_BLOCK_LOG)))
          [0..<repetitions config] ([], st)"

definition read_back :: "nat \<Rightarrow> linpack_state \<Rightarrow> linpack_state" where
  "read_back n st =
     st\<lparr> host_A := take (n * n) (Buffer_a st) @ drop (n * n) (host_A st),
         host_ipvt := take n (Buffer_pivot st) @ drop n (host_ipvt st),
         commands := commands st @ [EnqueueReadBuffer_a, EnqueueReadBuffer_pivot] \<rparr>"

definition solve :: "gesl \<Rightarrow> nat \<Rightarrow> linpack_state \<Rightarrow> linpack_state" where
  "solve gesl_ref n st =
     (case gesl_ref (host_A st) (host_b st) (host_ipvt st) n n of
        (a, b, ipvt) \<Rightarrow>
          st\<lparr> host_A := a, host_b := b, host_ipvt := ipvt,
              commands := commands st @ [Gesl_ref] \<rparr>)"

definition linpack_calculate ::
  "opencl_runtime \<Rightarrow> gesl \<Rightarrow> nat \<Rightarrow> ExecutionConfiguration \<Rightarrow> linpack_state
     \<Rightarrow> (cl_abort + LinpackExecutionTimings) \<times> linpack_state" where
  "linpack_calculate rt gesl_ref LOCAL_MEM_BLOCK_LOG config st =
     (if err_kernel rt \<noteq> CL_SUCCESS then (Inl (CL_error (err_kernel rt)), st)
      else if err_arg0 rt \<noteq> CL_SUCCESS then (Inl (CL_error (err_arg0 rt)), st)
      else if err_arg1 rt \<noteq> CL_SUCCESS then (Inl (CL_error (err_arg1 rt)), st)
      else if err_arg2 rt \<noteq> CL_SUCCESS then (Inl (CL_error (err_arg2 rt)), st)
      else
        case execute_kernels rt LOCAL_MEM_BLOCK_LOG config st of
          (executionTimes, st1) \<Rightarrow>
            (Inr \<lparr> timings = executionTimes \<rparr>,
             solve gesl_ref (matrixSize config) (read_back (matrixSize config) st1)))"

text \<open>The contents of \<open>Buffer_a\<close> at the kernel launches of a command sequence.\<close>

fun kernel_inputs :: "command list \<Rightarrow> real list list" where
  "kernel_inputs [] = []"
| "kernel_inputs (EnqueueTask_gefa a # cs) = a # kernel_inputs cs"
| "kernel_inputs (c # cs) = kernel_inputs cs"

text \<open>
  A concrete run: a \<open>2 \<times> 2\<close> matrix, a kernel that negates the matrix and numbers the
  pivots, a solver that adds the first entry of the matrix to \<open>b\<close>.
\<close>

definition sample_runtime :: opencl_runtime where
  "sample_runtime =
     \<lparr> err_kernel = 0, err_arg0 = 0, err_arg1 = 0, err_arg2 = 0,
       gefa = (\<lambda>blocks (a, pivot). (map uminus a, map int [0..<length pivot])),
       write_seconds = (\<lambda>i. 2), kernel_seconds = (\<lambda>i. 4) \<rparr>"

definition sample_gesl :: gesl where
  "sample_gesl a b ipvt n lda = (a, map (\<lambda>x. x + hd a) b, ipvt)"

definition sample_linpack_state :: linpack_state where
  "sample_linpack_state =
     \<lparr> host_A = [4, 1, 1, 3], host_b = [5, 4], host_ipvt = [0, 0],
       Buffer_a = [9, 9, 9, 9], Buffer_pivot = [7, 7], host_clock = 0, commands = [] \<rparr>"

definition sample_config :: ExecutionConfiguration where
  "sample_config = \<lparr> repetitions = 2, matrixSize = 2 \<rparr>"

section \<open>LINPACK kernels: the external channels of the communication tests\<close>

text \<open>
  In emulation every external channel of a kernel is a file of \<open>HOST_DATA_TYPE\<close> values,
  each stored as the bytes of its object representation: the tests write a value with
  \<open>fs.write(reinterpret_cast<const char*>(&value), sizeof(HOST_DATA_TYPE))\<close> and read it
  with \<open>fs.read\<close> in the same way. \<open>HOST_DATA_TYPE\<close> is set in \<open>parameters.h\<close>, which is
  not among the sources; the type and its object representation are parameters. Copying
  the bytes of a value of such a type gives the value back, and no type has size 0: this
  is \<open>trivially_copyable\<close>. For \<open>float\<close>, a value is the 32 bits of its representation
  and the bytes are four, the lowest first.
\<close>

type_synonym byte = "8 word"
type_synonym file_system = "string \<Rightarrow> byte list option"

record 'v object_representation =
  sizeof :: nat
  to_bytes :: "'v \<Rightarrow> byte list"
  from_bytes :: "byte list \<Rightarrow> 'v"

definition trivially_copyable :: "'v object_representation \<Rightarrow> bool" where
  "trivially_copyable rep =
     (0 < sizeof rep
      \<and> (\<forall>v. length (to_bytes rep v) = sizeof rep \<and> from_bytes rep (to_bytes rep v) = v))"

definition float_representation :: "32 word object_representation" where
  "float_representation =
     \<lparr> sizeof = 4,
       to_bytes = (\<lambda>v. [ucast v, ucast (drop_bit 8 v), ucast (drop_bit 16 v),
                         ucast (drop_bit 24 v)]),
       from_bytes = (\<lambda>bytes.
          or (ucast (bytes ! 0))
             (or (push_bit 8 (ucast (bytes ! 1)))
                 (or (push_bit 16 (ucast (bytes ! 2))) (push_bit 24 (ucast (bytes ! 3)))))) \<rparr>"

definition numberOfChannels :: nat where
  "numberOfChannels = 4"

definition channelOutName :: string where
  "channelOutName = ''kernel_output_ch''"

definition channelInName :: string where
  "channelInName = ''kernel_input_ch''"

text \<open>\<open>std::to_string\<close> of an unsigned number: its decimal digits.\<close>

fun to_string :: "nat \<Rightarrow> string" where
  "to_string n =
     (if n < 10 then [''0123456789'' ! n]
      else to_string (n div 10) @ [''0123456789'' ! (n mod 10)])"

declare to_string.simps [simp del]

text \<open>
  The loop \<open>while (fs.read(&value, sizeof(HOST_DATA_TYPE))) values.push_back(value)\<close>: a
  read fails when fewer than \<open>sizeof(HOST_DATA_TYPE)\<close> bytes are left, and the loop ends.
  A file that cannot be opened gives no value.
\<close>

fun read_values :: "'v object_representation \<Rightarrow> byte list \<Rightarrow> 'v list" where
  "read_values rep bytes =
     (if sizeof rep = 0 \<or> length bytes < sizeof rep then []
      else from_bytes rep (take (sizeof rep) bytes) # read_values rep (drop (sizeof rep) bytes))"

declare read_values.simps [simp del]

definition channel_file :: "nat \<Rightarrow> bool \<Rightarrow> string" where
  "channel_file channel_id output_channel =
     (if output_channel then channelOutName else channelInName) @ to_string channel_id"

definition getDataFromExternalChannel ::
  "'v object_representation \<Rightarrow> file_system \<Rightarrow> nat \<Rightarrow> bool \<Rightarrow> 'v list" where
  "getDataFromExternalChannel rep files channel_id output_channel =
     (case files (channel_file channel_id output_channel) of
        None \<Rightarrow> []
      | Some bytes \<Rightarrow> read_values rep bytes)"

text \<open>
  Writing, as \<open>setupInputChannels\<close> does it: the file is opened truncated, and every
  \<open>fs.write\<close> adds the bytes of one value at the end.
\<close>

definition fs_write :: "'v object_representation \<Rightarrow> byte list \<Rightarrow> 'v \<Rightarrow> byte list" where
  "fs_write rep bytes v = bytes @ to_bytes rep v"

definition write_file ::
  "'v object_representation \<Rightarrow> file_system \<Rightarrow> string \<Rightarrow> 'v list \<Rightarrow> file_system" where
  "write_file rep files fname vs =
     files(fname \<mapsto> fold (\<lambda>v bytes. fs_write rep bytes v) vs [])"

text \<open>
  \<open>setupExternalChannelFiles\<close> removes the file of every output channel and creates it
  anew, empty.
\<close>

definition setupExternalChannelFiles :: "file_system \<Rightarrow> file_system" where
  "setupExternalChannelFiles files =
     fold (\<lambda>i files. files(channelOutName @ to_string i \<mapsto> [])) [0..<numberOfChannels] files"

text \<open>
  \<open>BLOCK_SIZE\<close> and \<open>CHUNK\<close> of the tests are \<open>1 << LOCAL_MEM_BLOCK_LOG\<close> and
  \<open>1 << REGISTER_BLOCK_LOG\<close>.
\<close>

definition BLOCK_SIZE :: "nat \<Rightarrow> nat" where
  "BLOCK_SIZE LOCAL_MEM_BLOCK_LOG = 2 ^ LOCAL_MEM_BLOCK_LOG"

definition CHUNK :: "nat \<Rightarrow> nat" where
  "CHUNK REGISTER_BLOCK_LOG = 2 ^ REGISTER_BLOCK_LOG"

text \<open>
  The values that \<open>setupInputChannels\<close> writes to every input channel, in order: of column
  \<open>ii\<close> of the factorized block the rows from \<open>(ii / CHUNK) * CHUNK\<close> on.
\<close>

definition panel_values :: "nat \<Rightarrow> nat \<Rightarrow> nat \<Rightarrow> (nat \<Rightarrow> 'a) \<Rightarrow> 'a list" where
  "panel_values B chunk matrix_size A =
     fold (\<lambda>ii. fold (\<lambda>jj written. written @ [A (offset matrix_size jj ii)])
                      [(ii div chunk) * chunk..<B])
          [0..<B] []"

definition setupInputChannels ::
  "'v object_representation \<Rightarrow> nat \<Rightarrow> nat \<Rightarrow> nat \<Rightarrow> (nat \<Rightarrow> 'v) \<Rightarrow> file_system
     \<Rightarrow> file_system" where
  "setupInputChannels rep B chunk matrix_size A files =
     fold (\<lambda>i files. write_file rep files (channelInName @ to_string i)
                        (panel_values B chunk matrix_size A))
          [0..<numberOfChannels] files"

text \<open>
  The number of values that the tests expect on a channel that carries a panel: the loop
  \<open>for (int i = 0; i < BLOCK_SIZE; i++) number_values += BLOCK_SIZE - (i / CHUNK) * CHUNK\<close>.
\<close>

definition number_values :: "nat \<Rightarrow> nat \<Rightarrow> nat" where
  "number_values B chunk =
     fold (\<lambda>i number_values. number_values + (B - (i div chunk) * chunk)) [0..<B] 0"

text \<open>What a kernel has sent on its four channels: 0 top, 1 right, 2 bottom, 3 left.\<close>

record 'a channel_output =
  to_top :: "'a list"
  to_right :: "'a list"
  to_bottom :: "'a list"
  to_left :: "'a list"

text \<open>
  Modelled from the spec: the kernels \<open>top_update\<close> and \<open>network_layer\<close> are device
  code and not among the sources. The Top role receives the pivot row panel from the
  west, as many values as the LU role sends, and waits while they are not there (no
  result); it updates its block with them, relays the panel to the east and forwards the
  updated block, row by row, to the south; it sends nothing to the north and to the
  west. The elimination itself is a parameter.
\<close>

definition top_update ::
  "nat \<Rightarrow> nat \<Rightarrow> ((nat \<Rightarrow> 'a) \<Rightarrow> 'a list \<Rightarrow> nat \<Rightarrow> 'a) \<Rightarrow> (nat \<Rightarrow> 'a) \<Rightarrow> 'a list
     \<Rightarrow> ((nat \<Rightarrow> 'a) \<times> 'a channel_output) option" where
  "top_update B chunk eliminate block from_left =
     (if length from_left < number_values B chunk then None
      else
        let panel = take (number_values B chunk) from_left;
            updated = eliminate block panel
        in Some (updated,
                 \<lparr> to_top = [], to_right = panel,
                   to_bottom = map updated [0..<B * B], to_left = [] \<rparr>))"

text \<open>
  Modelled from the spec: the emulated channels themselves are not among the sources. A
  channel that points outside the grid is mirrored to its file, an append-only stream:
  what a kernel sends on channel \<open>channel_id\<close> is added at the end of the file of that
  output channel.
\<close>

definition send :: "'v object_representation \<Rightarrow> file_system \<Rightarrow> nat \<Rightarrow> 'v list \<Rightarrow> file_system"
  where
  "send rep files channel_id vs =
     files(channel_file channel_id True \<mapsto>
             fold (\<lambda>v bytes. fs_write rep bytes v) vs
               (case files (channel_file channel_id True) of None \<Rightarrow> [] | Some bytes \<Rightarrow> bytes))"

text \<open>
  Modelled from the spec: \<open>executeKernel\<close> of the Top tests starts the kernels
  \<open>network_layer\<close> and \<open>top_update\<close>, which are not among the sources. The Top kernel
  takes its panel from the input channel 3, the west, and its four outputs go to the files
  of the output channels.
\<close>

definition execute_top_update ::
  "'v object_representation \<Rightarrow> nat \<Rightarrow> nat \<Rightarrow> ((nat \<Rightarrow> 'v) \<Rightarrow> 'v list \<Rightarrow> nat \<Rightarrow> 'v) \<Rightarrow> (nat \<Rightarrow> 'v)
     \<Rightarrow> file_system \<Rightarrow> ((nat \<Rightarrow> 'v) \<times> file_system) option" where
  "execute_top_update rep B chunk eliminate block files =
     (case top_update B chunk eliminate block (getDataFromExternalChannel rep files 3 False) of
        None \<Rightarrow> None
      | Some (updated, sent) \<Rightarrow>
          Some (updated,
                send rep (send rep (send rep (send rep files 0 (to_top sent)) 1 (to_right sent))
                            2 (to_bottom sent)) 3 (to_left sent)))"

text \<open>Concrete inputs: a block of zeros, and an elimination that leaves the block as it is.\<close>

definition zero_block :: "nat \<Rightarrow> 32 word" where
  "zero_block = (\<lambda>p. 0)"

definition keep_block :: "(nat \<Rightarrow> 32 word) \<Rightarrow> 32 word list \<Rightarrow> nat \<Rightarrow> 32 word" where
  "keep_block block panel = block"

text \<open>Concrete timings: three transfer times and two calculation times.\<close>

definition sample_timings :: ExecutionTimings where
  "sample_timings = \<lparr> transferTimings = [2, 1, 3], calculationTimings = [4, 8] \<rparr>"

text \<open>
  In a sequence of events, every exchange of blocks of a repetition comes after the
  barrier of that repetition.
\<close>

definition barrier_first :: "event list \<Rightarrow> bool" where
  "barrier_first tr = (\<forall>xs ys k. tr = xs @ ExchangeData k # ys \<longrightarrow> MPI_Barrier k \<in> set xs)"

text \<open>
  Several nodes run \<open>calculate\<close>, each its own sequence of events. A run of all nodes is
  a sequence of events, each with the node that it belongs to; \<open>events_of\<close> gives the
  events of one node. A node has reached the barrier of repetition \<open>k\<close> when its program
  has that barrier and it has done everything that comes before it.
\<close>

definition events_of :: "'n \<Rightarrow> ('n \<times> event) list \<Rightarrow> event list" where
  "events_of q g = map snd (filter (\<lambda>x. fst x = q) g)"

definition reached_barrier :: "event list \<Rightarrow> nat \<Rightarrow> event list \<Rightarrow> bool" where
  "reached_barrier program k done =
     (MPI_Barrier k \<in> set program
      \<and> prefix (takeWhile (\<lambda>e. e \<noteq> MPI_Barrier k) program) done)"

text \<open>
  The contract of \<open>MPI_Barrier\<close>: every node follows its program, and a barrier returns
  on a node only when all nodes have reached it.
\<close>

definition barrier_contract :: "('n \<Rightarrow> event list) \<Rightarrow> ('n \<times> event) list \<Rightarrow> bool" where
  "barrier_contract program g =
     ((\<forall>q. prefix (events_of q g) (program q))
      \<and> (\<forall>i<length g. \<forall>k. snd (g ! i) = MPI_Barrier k \<longrightarrow>
            (\<forall>q. reached_barrier (program q) k (events_of q (take i g)))))"

text \<open>
  A concrete run of two nodes with two repetitions each: node \<open>False\<close> reaches the first
  barrier, node \<open>True\<close> does the first repetition, node \<open>False\<close> does it, and both go into
  the second.
\<close>

definition sample_run :: "(bool \<times> event) list" where
  "sample_run =
     [(False, MPI_Barrier 0), (True, MPI_Barrier 0), (True, ExchangeData 0),
      (True, TransposeBlocks 0), (True, ExchangeData 0), (False, ExchangeData 0),
      (False, TransposeBlocks 0), (False, ExchangeData 0), (False, MPI_Barrier 1),
      (True, MPI_Barrier 1), (True, ExchangeData 1)]"

section \<open>Properties of the summary statistics\<close>

lemma accumulate_sum: "accumulate xs init = init + sum_list xs"
  unfolding accumulate_def by (induction xs arbitrary: init) simp_all

lemma fold_min_Min:
  "fold (\<lambda>y smallest. if y < smallest then y else smallest) xs (x::real) = Min (insert x (set xs))"
proof (induction xs arbitrary: x)
  case Nil
  then show ?case by simp
next
  case (Cons y ys)
  have "Min (insert x (insert y (set ys))) = Min (insert (min x y) (set ys))"
    by (cases "set ys = {}") (simp_all add: min.assoc)
  moreover have "(if y < x then y else x) = min x y" by (simp add: min_def)
  ultimately show ?case using Cons.IH by simp
qed

lemma min_element_Min: "xs \<noteq> [] \<Longrightarrow> min_element xs = Some (Min (set xs))"
  by (cases xs) (simp_all add: fold_min_Min)

text \<open>
  Claim C8. On timings with at least one transfer time and one calculation time,
  \<open>printResults\<close> reports, for the transfer times and separately for the calculation
  times, the arithmetic mean (the sum of the entries divided by their number) and the
  minimum of the entries.
\<close>

theorem printResults_mean_and_minimum:
  assumes "transferTimings r \<noteq> []" and "calculationTimings r \<noteq> []"
  shows "map_option avgTransferTime (printResults r n)
           = Some (sum_list (transferTimings r) / real (length (transferTimings r)))
       \<and> map_option minTransferTime (printResults r n) = Some (Min (set (transferTimings r)))
       \<and> map_option avgCalculationTime (printResults r n)
           = Some (sum_list (calculationTimings r) / real (length (calculationTimings r)))
       \<and> map_option minCalculationTime (printResults r n)
           = Some (Min (set (calculationTimings r)))"
  using assms
  by (simp add: printResults_def fdiv_def accumulate_sum min_element_Min Let_def)

theorem printResults_mean_and_minimum_witness:
  "transferTimings sample_timings \<noteq> [] \<and> calculationTimings sample_timings \<noteq> []
   \<and> map_option avgTransferTime (printResults sample_timings 4) = Some 2
   \<and> map_option minTransferTime (printResults sample_timings 4) = Some 1
   \<and> map_option avgCalculationTime (printResults sample_timings 4) = Some 6
   \<and> map_option minCalculationTime (printResults sample_timings 4) = Some 4"
  using printResults_mean_and_minimum [of sample_timings 4]
  by (simp add: sample_timings_def)


section \<open>Properties of the generated input data\<close>

lemma upt_split: "i < n \<Longrightarrow> [0..<n] = [0..<i] @ i # [Suc i..<n]"
proof -
  assume "i < n"
  then have "[0..<n] = [0..<i] @ [i..<n]"
    using upt_add_eq_append [of 0 i "n - i"] by simp
  also have "[i..<n] = i # [Suc i..<n]" using \<open>i < n\<close> by (rule upt_conv_Cons)
  finally show ?thesis .
qed

lemma generate_cell_eq:
  "generate_cell ar dis n i j (A, B, k) =
     (A(offset n i j := to_host ar (dis k)),
      B(offset n j i := to_host ar (to_double ar (- to_host ar (dis k) + 1))), Suc k)"
  by (simp add: generate_cell_def Let_def)

lemma inner_keeps:
  "fold (generate_cell ar dis n i) js (A, B, k) = (A', B', k') \<Longrightarrow>
     k' = k + length js
     \<and> ((\<forall>j\<in>set js. offset n i j \<noteq> p) \<longrightarrow> A' p = A p)
     \<and> ((\<forall>j\<in>set js. offset n j i \<noteq> q) \<longrightarrow> B' q = B q)"
proof (induction js arbitrary: A B k)
  case Nil
  then show ?case by simp
next
  case (Cons j js)
  from Cons.prems have
    "fold (generate_cell ar dis n i) js
       (A(offset n i j := to_host ar (dis k)),
        B(offset n j i := to_host ar (to_double ar (- to_host ar (dis k) + 1))), Suc k)
     = (A', B', k')"
    by (simp add: generate_cell_eq del: fun_upd_apply)
  from Cons.IH [OF this] show ?case by auto
qed

lemma outer_keeps:
  "fold (\<lambda>i. fold (generate_cell ar dis n i) [0..<n]) rs (A, B, k) = (A', B', k') \<Longrightarrow>
     k' = k + length rs * n
     \<and> ((\<forall>i\<in>set rs. \<forall>j<n. offset n i j \<noteq> p) \<longrightarrow> A' p = A p)
     \<and> ((\<forall>i\<in>set rs. \<forall>j<n. offset n j i \<noteq> q) \<longrightarrow> B' q = B q)"
proof (induction rs arbitrary: A B k)
  case Nil
  then show ?case by simp
next
  case (Cons r rs)
  obtain A1 B1 k1 where row: "fold (generate_cell ar dis n r) [0..<n] (A, B, k) = (A1, B1, k1)"
    by (metis prod_cases3)
  from Cons.prems row have rest:
    "fold (\<lambda>i. fold (generate_cell ar dis n i) [0..<n]) rs (A1, B1, k1) = (A', B', k')"
    by simp
  from inner_keeps [OF row, of p q] Cons.IH [OF rest] show ?case by auto
qed

text \<open>
  The last cell to write an offset decides what is stored there: cell \<open>(i0, j0)\<close> stores
  its draw, number \<open>i0 * n + j0\<close>, in \<open>A\<close> and the value computed from it in \<open>B\<close>, and
  both stay if no later cell writes the same offsets.
\<close>

lemma last_writer:
  assumes run: "fold (\<lambda>i. fold (generate_cell ar dis n i) [0..<n]) [0..<n] (A, B, 0) = (A', B', k')"
    and i0: "i0 < n" and j0: "j0 < n"
  shows "(\<forall>j. j0 < j \<and> j < n \<longrightarrow> offset n i0 j \<noteq> offset n i0 j0) \<Longrightarrow>
         (\<forall>i j. i0 < i \<and> i < n \<and> j < n \<longrightarrow> offset n i j \<noteq> offset n i0 j0) \<Longrightarrow>
         A' (offset n i0 j0) = to_host ar (dis (i0 * n + j0))"
    and "(\<forall>j. j0 < j \<and> j < n \<longrightarrow> offset n j i0 \<noteq> offset n j0 i0) \<Longrightarrow>
         (\<forall>i j. i0 < i \<and> i < n \<and> j < n \<longrightarrow> offset n j i \<noteq> offset n j0 i0) \<Longrightarrow>
         B' (offset n j0 i0) = to_host ar (to_double ar (- to_host ar (dis (i0 * n + j0)) + 1))"
proof -
  let ?outer = "\<lambda>i. fold (generate_cell ar dis n i) [0..<n]"
  have rows: "[0..<n] = [0..<i0] @ i0 # [Suc i0..<n]"
    using i0 by (rule upt_split)
  have cols: "[0..<n] = [0..<j0] @ j0 # [Suc j0..<n]"
    using j0 by (rule upt_split)
  obtain A1 B1 k1 where s1: "fold ?outer [0..<i0] (A, B, 0) = (A1, B1, k1)"
    by (metis prod_cases3)
  obtain A2 B2 k2 where s2: "fold (generate_cell ar dis n i0) [0..<j0] (A1, B1, k1) = (A2, B2, k2)"
    by (metis prod_cases3)
  let ?A3 = "A2(offset n i0 j0 := to_host ar (dis k2))"
  let ?B3 = "B2(offset n j0 i0 := to_host ar (to_double ar (- to_host ar (dis k2) + 1)))"
  obtain A4 B4 k4 where s4:
    "fold (generate_cell ar dis n i0) [Suc j0..<n] (?A3, ?B3, Suc k2) = (A4, B4, k4)"
    by (metis prod_cases3)
  have k1: "k1 = i0 * n" using outer_keeps [OF s1] by simp
  have k2: "k2 = i0 * n + j0" using inner_keeps [OF s2] k1 by simp
  have "?outer i0 (A1, B1, k1) =
        fold (generate_cell ar dis n i0) ([0..<j0] @ j0 # [Suc j0..<n]) (A1, B1, k1)"
    using cols by simp
  also have "\<dots> = fold (generate_cell ar dis n i0) [Suc j0..<n]
                      (generate_cell ar dis n i0 j0 (A2, B2, k2))"
    by (simp only: fold_append fold_simps comp_apply s2)
  finally have row: "?outer i0 (A1, B1, k1) = (A4, B4, k4)"
    by (simp only: generate_cell_eq s4)
  have "fold ?outer [0..<n] (A, B, 0) = fold ?outer ([0..<i0] @ i0 # [Suc i0..<n]) (A, B, 0)"
    using rows by simp
  also have "\<dots> = fold ?outer [Suc i0..<n] (?outer i0 (A1, B1, k1))"
    by (simp only: fold_append fold_simps comp_apply s1)
  finally have s5: "fold ?outer [Suc i0..<n] (A4, B4, k4) = (A', B', k')"
    using run by (simp only: row)
  {
    assume a: "\<forall>j. j0 < j \<and> j < n \<longrightarrow> offset n i0 j \<noteq> offset n i0 j0"
       and b: "\<forall>i j. i0 < i \<and> i < n \<and> j < n \<longrightarrow> offset n i j \<noteq> offset n i0 j0"
    have "A4 (offset n i0 j0) = ?A3 (offset n i0 j0)"
      using inner_keeps [OF s4, of "offset n i0 j0"] a by simp
    moreover have "A' (offset n i0 j0) = A4 (offset n i0 j0)"
      using outer_keeps [OF s5, of "offset n i0 j0"] b by simp
    ultimately show "A' (offset n i0 j0) = to_host ar (dis (i0 * n + j0))" using k2 by simp
  }
  {
    assume a: "\<forall>j. j0 < j \<and> j < n \<longrightarrow> offset n j i0 \<noteq> offset n j0 i0"
       and b: "\<forall>i j. i0 < i \<and> i < n \<and> j < n \<longrightarrow> offset n j i \<noteq> offset n j0 i0"
    have "B4 (offset n j0 i0) = ?B3 (offset n j0 i0)"
      using inner_keeps [OF s4, of _ "offset n j0 i0"] a by simp
    moreover have "B' (offset n j0 i0) = B4 (offset n j0 i0)"
      using outer_keeps [OF s5, of _ "offset n j0 i0"] b by simp
    ultimately show
      "B' (offset n j0 i0) = to_host ar (to_double ar (- to_host ar (dis (i0 * n + j0)) + 1))"
      using k2 by simp
  }
qed

text \<open>
  While no offset wraps around, that is for \<open>n * n \<le> 2 ^ 32\<close>, every cell is the only
  writer of its two offsets, and the arrays hold what the assignments say: \<open>A[i * n + j]\<close>
  is the draw of cell \<open>(i, j)\<close> as stored, and \<open>B[j * n + i]\<close> is \<open>- A[i * n + j] + 1.0\<close>,
  added in double and stored.
\<close>

lemma offset_plain:
  assumes "n * n \<le> 2 ^ 32" "i < n" "j < n"
  shows "offset n i j = i * n + j"
proof -
  have "i * n + j < Suc i * n" using assms by simp
  also have "\<dots> \<le> n * n" using assms by (simp add: Suc_leI mult_le_mono1 del: mult_Suc)
  finally show ?thesis using assms by (simp add: offset_def cl_uint_def)
qed

lemma cell_unique:
  fixes i j i' j' n :: nat
  assumes "j < n" "j' < n" "i * n + j = i' * n + j'"
  shows "i = i' \<and> j = j'"
proof -
  have "(i * n + j) div n = i" and "(i * n + j) mod n = j" using assms(1) by simp_all
  moreover have "(i' * n + j') div n = i'" and "(i' * n + j') mod n = j'"
    using assms(2) by simp_all
  ultimately show ?thesis using assms(3) by simp
qed

lemma small_size:
  fixes n :: nat
  assumes "n * n \<le> 2 ^ 32"
  shows "n \<le> 65536"
proof (rule ccontr)
  assume "\<not> n \<le> 65536"
  then have h: "65537 \<le> n" by simp
  from h h have "65537 * 65537 \<le> n * n" by (rule mult_le_mono)
  with assms show False by simp
qed

lemma generateInputData_without_wrap:
  assumes "n * n \<le> 2 ^ 32"
  shows "\<exists>A' B'. generateInputData ar dis n A B = Some (A', B')
           \<and> (\<forall>i<n. \<forall>j<n.
                 A' (i * n + j) = to_host ar (dis (i * n + j))
               \<and> B' (j * n + i) = to_host ar (to_double ar (- A' (i * n + j) + 1)))"
proof -
  obtain A' B' k' where run:
    "fold (\<lambda>i. fold (generate_cell ar dis n i) [0..<n]) [0..<n] (A, B, 0) = (A', B', k')"
    by (metis prod_cases3)
  have "n \<le> 65536" using assms by (rule small_size)
  then have "\<not> INT_MAX < n" by (simp add: INT_MAX_def)
  then have res: "generateInputData ar dis n A B = Some (A', B')"
    by (simp add: generateInputData_def run)
  have cells: "A' (i * n + j) = to_host ar (dis (i * n + j))
             \<and> B' (j * n + i) = to_host ar (to_double ar (- A' (i * n + j) + 1))"
    if i: "i < n" and j: "j < n" for i j
  proof -
    have a1: "\<forall>j'. j < j' \<and> j' < n \<longrightarrow> offset n i j' \<noteq> offset n i j"
      using assms i j by (simp add: offset_plain)
    have a2: "\<forall>i' j'. i < i' \<and> i' < n \<and> j' < n \<longrightarrow> offset n i' j' \<noteq> offset n i j"
    proof (intro allI impI)
      fix i' j' assume h: "i < i' \<and> i' < n \<and> j' < n"
      then have "i' * n + j' \<noteq> i * n + j" using cell_unique [of j' n j i' i] j by auto
      then show "offset n i' j' \<noteq> offset n i j" using assms h i j by (simp add: offset_plain)
    qed
    have b1: "\<forall>j'. j < j' \<and> j' < n \<longrightarrow> offset n j' i \<noteq> offset n j i"
    proof (intro allI impI)
      fix j' assume h: "j < j' \<and> j' < n"
      then have "j' * n + i \<noteq> j * n + i" by simp
      then show "offset n j' i \<noteq> offset n j i" using assms h i j by (simp add: offset_plain)
    qed
    have b2: "\<forall>i' j'. i < i' \<and> i' < n \<and> j' < n \<longrightarrow> offset n j' i' \<noteq> offset n j i"
    proof (intro allI impI)
      fix i' j' assume h: "i < i' \<and> i' < n \<and> j' < n"
      then have "j' * n + i' \<noteq> j * n + i" using cell_unique [of i' n i j' j] i by auto
      then show "offset n j' i' \<noteq> offset n j i" using assms h i j by (simp add: offset_plain)
    qed
    have "A' (offset n i j) = to_host ar (dis (i * n + j))"
      by (rule last_writer(1) [OF run i j a1 a2])
    then have A: "A' (i * n + j) = to_host ar (dis (i * n + j))"
      using assms i j by (simp add: offset_plain)
    have "B' (offset n j i) = to_host ar (to_double ar (- to_host ar (dis (i * n + j)) + 1))"
      by (rule last_writer(2) [OF run i j b1 b2])
    then have "B' (j * n + i) = to_host ar (to_double ar (- to_host ar (dis (i * n + j)) + 1))"
      using assms i j by (simp add: offset_plain)
    with A show ?thesis by simp
  qed
  from res cells show ?thesis by blast
qed

text \<open>
  Where the offsets wrap around, a later cell overwrites an earlier one. For a matrix of
  size 65537, cell \<open>(65535, 1)\<close> is the last to write \<open>A[0]\<close>, and cell \<open>(1, 65535)\<close> the
  last to write \<open>B[0]\<close>.
\<close>

lemma wrap_zero:
  fixes x :: nat
  assumes "x < 2 * 4294967296"
  shows "(x mod 4294967296 = 0) = (x = 0 \<or> x = 4294967296)"
proof (cases "x < 4294967296")
  case True
  then show ?thesis by simp
next
  case False
  then obtain y where y: "x = 4294967296 + y" by (metis le_Suc_ex not_less)
  with assms have "y < 4294967296" by simp
  then show ?thesis unfolding y by simp
qed

lemma offset_65537_zero:
  assumes "i < 65537" "j < 65537"
  shows "(offset 65537 i j = 0) = (i = 0 \<and> j = 0 \<or> i = 65535 \<and> j = 1)"
proof -
  have "i \<le> 65536" using assms by simp
  then have "i * 65537 \<le> 65536 * 65537" by (rule mult_le_mono1)
  then have "i * 65537 + j < 2 * 4294967296" using assms by simp
  then have w: "((i * 65537 + j) mod 4294967296 = 0)
                 = (i * 65537 + j = 0 \<or> i * 65537 + j = 4294967296)"
    by (rule wrap_zero)
  have p: "(2::nat) ^ 32 = 4294967296" by simp
  have "(offset 65537 i j = 0) = (i * 65537 + j = 0 \<or> i * 65537 + j = 4294967296)"
    by (simp only: offset_def cl_uint_def p w)
  also have "\<dots> = (i = 0 \<and> j = 0 \<or> i = 65535 \<and> j = 1)"
  proof -
    have d: "(i * 65537 + j) div 65537 = i" and m: "(i * 65537 + j) mod 65537 = j"
      using assms by simp_all
    have "i * 65537 + j = 4294967296 \<Longrightarrow> i = 65535 \<and> j = 1"
    proof -
      assume e: "i * 65537 + j = 4294967296"
      have "i = 4294967296 div 65537" using d unfolding e by simp
      moreover have "j = 4294967296 mod 65537" using m unfolding e by simp
      ultimately show ?thesis by simp
    qed
    then show ?thesis by auto
  qed
  finally show ?thesis .
qed

text \<open>
  Claim C10 on the code, at the matrix size 65537: \<open>generateInputData\<close> returns, and in
  the arrays it leaves, \<open>A[0 * n + 0]\<close> holds draw number \<open>2 ^ 32\<close>, that of cell
  \<open>(65535, 1)\<close>, while \<open>B[0 * n + 0]\<close> holds the value computed from draw number \<open>2 ^ 17\<close>,
  that of cell \<open>(1, 65535)\<close>. The claim's relation \<open>B[j * n + i] = - A[i * n + j] + 1.0\<close>
  at \<open>i = j = 0\<close> therefore relates two different draws of the generator; whatever the
  rounding is.
\<close>

theorem generateInputData_wraps_at_65537:
  "\<exists>A' B'. generateInputData ar dis 65537 A B = Some (A', B')
      \<and> A' (0 * 65537 + 0) = to_host ar (dis 4294967296)
      \<and> B' (0 * 65537 + 0) = to_host ar (to_double ar (- to_host ar (dis 131072) + 1))"
proof -
  obtain A' B' k' where run:
    "fold (\<lambda>i. fold (generate_cell ar dis 65537 i) [0..<65537]) [0..<65537] (A, B, 0)
       = (A', B', k')"
    by (metis prod_cases3)
  have z: "offset 65537 65535 1 = 0" by (simp add: offset_65537_zero)
  have a1: "\<forall>j. 1 < j \<and> j < 65537 \<longrightarrow> offset 65537 65535 j \<noteq> offset 65537 65535 1"
    unfolding z by (simp add: offset_65537_zero)
  have a2: "\<forall>i j. 65535 < i \<and> i < 65537 \<and> j < 65537
              \<longrightarrow> offset 65537 i j \<noteq> offset 65537 65535 1"
    unfolding z by (simp add: offset_65537_zero)
  have b1: "\<forall>j. 65535 < j \<and> j < 65537 \<longrightarrow> offset 65537 j 1 \<noteq> offset 65537 65535 1"
    unfolding z by (simp add: offset_65537_zero)
  have b2: "\<forall>i j. 1 < i \<and> i < 65537 \<and> j < 65537
              \<longrightarrow> offset 65537 j i \<noteq> offset 65537 65535 1"
    unfolding z by (simp add: offset_65537_zero)
  have "A' (offset 65537 65535 1) = to_host ar (dis (65535 * 65537 + 1))"
    by (rule last_writer(1) [OF run _ _ a1 a2]) simp_all
  then have A0: "A' 0 = to_host ar (dis 4294967296)" unfolding z by simp
  have "B' (offset 65537 65535 1)
          = to_host ar (to_double ar (- to_host ar (dis (1 * 65537 + 65535)) + 1))"
    by (rule last_writer(2) [OF run _ _ b1 b2]) simp_all
  then have B0: "B' 0 = to_host ar (to_double ar (- to_host ar (dis 131072) + 1))"
    unfolding z by simp
  have "\<not> INT_MAX < 65537" by (simp add: INT_MAX_def)
  then have "generateInputData ar dis 65537 A B = Some (A', B')"
    by (simp only: generateInputData_def run prod.case if_False)
  then show ?thesis using A0 B0 by simp
qed

section \<open>Properties of the execution on the CPU\<close>

lemma transpose_blocks_supported:
  "h \<noteq> other_handler \<Longrightarrow> \<exists>d'. transpose_blocks bs env h d = Inr d'"
  by (cases h) (simp_all add: transpose_blocks_def)

lemma repetition_body_events:
  "repetition_body bs env handler settings k t w = (r, w') \<Longrightarrow>
     events w' = events w @ [MPI_Barrier k, ExchangeData k]
     \<or> events w' = events w @ [MPI_Barrier k, ExchangeData k, TransposeBlocks k, ExchangeData k]"
  by (auto simp: repetition_body_def Let_def barrier_def exchangeData_def now_def
           split: sum.splits)

lemma repetition_body_supported:
  assumes "dataHandlerIdentifier settings \<noteq> other_handler"
  shows "\<exists>w'. repetition_body bs env handler settings k t w =
           (Inr \<lparr> transferTimings = transferTimings t @ [0],
                  calculationTimings =
                    calculationTimings t @ [exchange_seconds env k + compute_seconds env k] \<rparr>, w')
         \<and> events w' =
             events w @ [MPI_Barrier k, ExchangeData k, TransposeBlocks k, ExchangeData k]"
proof -
  obtain d' where "transpose_blocks bs env (dataHandlerIdentifier settings)
      (node_data (exchangeData handler (exchange_seconds env k) k (barrier env k w))) = Inr d'"
    using transpose_blocks_supported [OF assms] by blast
  then show ?thesis
    by (simp add: repetition_body_def Let_def barrier_def exchangeData_def now_def)
qed

lemma repetition_loop_supported:
  assumes "dataHandlerIdentifier settings \<noteq> other_handler"
  shows "\<exists>w'. repetition_loop bs env handler settings ks t w =
           (Inr \<lparr> transferTimings = transferTimings t @ map (\<lambda>k. 0) ks,
                  calculationTimings =
                    calculationTimings t
                      @ map (\<lambda>k. exchange_seconds env k + compute_seconds env k) ks \<rparr>, w')"
proof (induction ks arbitrary: t w)
  case Nil
  then show ?case by simp
next
  case (Cons k ks)
  let ?t1 = "\<lparr> transferTimings = transferTimings t @ [0],
                calculationTimings =
                  calculationTimings t @ [exchange_seconds env k + compute_seconds env k] \<rparr>"
  obtain w1 where b: "repetition_body bs env handler settings k t w = (Inr ?t1, w1)"
    using repetition_body_supported [OF assms] by blast
  obtain w2 where "repetition_loop bs env handler settings ks ?t1 w1 =
           (Inr \<lparr> transferTimings = transferTimings ?t1 @ map (\<lambda>k. 0) ks,
                  calculationTimings =
                    calculationTimings ?t1
                      @ map (\<lambda>k. exchange_seconds env k + compute_seconds env k) ks \<rparr>, w2)"
    using Cons.IH [of ?t1 w1] by blast
  then show ?case by (simp add: b)
qed

lemma calculate_supported:
  assumes "blockSize (node_data w) = bs" and "dataHandlerIdentifier settings \<noteq> other_handler"
  shows "\<exists>w'. calculate bs env handler settings w =
           (Inr \<lparr> transferTimings = map (\<lambda>k. 0) [0..<numRepetitions settings],
                  calculationTimings =
                    map (\<lambda>k. exchange_seconds env k + compute_seconds env k)
                        [0..<numRepetitions settings] \<rparr>, w')"
  using repetition_loop_supported [OF assms(2), of bs env handler "[0..<numRepetitions settings]"
      "\<lparr> transferTimings = [], calculationTimings = [] \<rparr>" w] assms(1)
  by (simp add: calculate_def)

lemma repetition_loop_unsupported:
  assumes "dataHandlerIdentifier settings = other_handler"
  shows "\<exists>e w'. repetition_loop bs env handler settings (k # ks) t w = (Inl e, w')"
  using assms
  by (simp add: repetition_body_def transpose_blocks_def Let_def)

lemma calculate_returns:
  assumes "fst (calculate bs env handler settings w) = Inr t"
  shows "transferTimings t = map (\<lambda>k. 0) [0..<numRepetitions settings]
       \<and> calculationTimings t
           = map (\<lambda>k. exchange_seconds env k + compute_seconds env k)
               [0..<numRepetitions settings]"
proof (cases "dataHandlerIdentifier settings = other_handler")
  case False
  have b: "blockSize (node_data w) = bs"
    using assms by (auto simp: calculate_def split: if_splits)
  from calculate_supported [OF b False, of env handler] assms show ?thesis by auto
next
  case True
  have b: "blockSize (node_data w) = bs"
    using assms by (auto simp: calculate_def split: if_splits)
  show ?thesis
  proof (cases "numRepetitions settings")
    case 0
    then show ?thesis using assms b by (auto simp: calculate_def)
  next
    case (Suc r)
    then have "[0..<numRepetitions settings] = 0 # [Suc 0..<numRepetitions settings]"
      by (simp add: upt_conv_Cons)
    then obtain e w' where "repetition_loop bs env handler settings [0..<numRepetitions settings]
         \<lparr> transferTimings = [], calculationTimings = [] \<rparr> w = (Inl e, w')"
      using repetition_loop_unsupported [OF True] by metis
    then show ?thesis using assms b by (simp add: calculate_def)
  qed
qed

text \<open>
  Claim C2. When the block size is \<open>BLOCK_SIZE\<close> and the data handler is supported,
  \<open>calculate\<close> returns; and whenever it returns, the timings have exactly
  \<open>numRepetitions\<close> transfer times and exactly \<open>numRepetitions\<close> calculation times, every
  transfer time is non-negative, and so is every calculation time, provided that the
  clock does not run backwards between the two readings of a repetition.
\<close>

theorem timings_for_every_repetition:
  assumes "\<forall>k<numRepetitions settings. 0 \<le> exchange_seconds env k + compute_seconds env k"
  shows "(blockSize (node_data w) = bs \<and> dataHandlerIdentifier settings \<noteq> other_handler
            \<longrightarrow> (\<exists>t. fst (calculate bs env handler settings w) = Inr t))
       \<and> (\<forall>t. fst (calculate bs env handler settings w) = Inr t \<longrightarrow>
             length (transferTimings t) = numRepetitions settings
             \<and> length (calculationTimings t) = numRepetitions settings
             \<and> (\<forall>x\<in>set (transferTimings t). 0 \<le> x)
             \<and> (\<forall>x\<in>set (calculationTimings t). 0 \<le> x))"
proof (intro conjI impI allI)
  assume "blockSize (node_data w) = bs \<and> dataHandlerIdentifier settings \<noteq> other_handler"
  then show "\<exists>t. fst (calculate bs env handler settings w) = Inr t"
    using calculate_supported [of w bs settings env handler] by auto
next
  fix t
  assume r: "fst (calculate bs env handler settings w) = Inr t"
  note v = calculate_returns [OF r]
  show "length (transferTimings t) = numRepetitions settings" by (simp add: v)
  show "length (calculationTimings t) = numRepetitions settings" by (simp add: v)
  show "\<forall>x\<in>set (transferTimings t). 0 \<le> x" by (simp add: v)
  show "\<forall>x\<in>set (calculationTimings t). 0 \<le> x" using assms by (auto simp: v)
qed

theorem timings_for_every_repetition_witness:
  "0 \<le> exchange_seconds sample_environment 9 + compute_seconds sample_environment 9
   \<and> blockSize (node_data sample_world) = 1
   \<and> dataHandlerIdentifier (sample_settings 10) \<noteq> other_handler
   \<and> length (transferTimings
        (projr (fst (calculate 1 sample_environment same_data (sample_settings 10) sample_world))))
       = 10
   \<and> length (calculationTimings
        (projr (fst (calculate 1 sample_environment same_data (sample_settings 10) sample_world))))
       = 10"
proof -
  have s: "\<forall>k<numRepetitions (sample_settings 10).
             0 \<le> exchange_seconds sample_environment k + compute_seconds sample_environment k"
    by (simp add: sample_environment_def)
  have b: "blockSize (node_data sample_world) = 1"
    by (simp add: sample_world_def sample_data_def)
  have h: "dataHandlerIdentifier (sample_settings 10) \<noteq> other_handler"
    by (simp add: sample_settings_def)
  have n: "numRepetitions (sample_settings 10) = 10" by (simp add: sample_settings_def)
  note t = timings_for_every_repetition [OF s, of sample_world 1 same_data]
  from t b h obtain t0 where
    r: "fst (calculate 1 sample_environment same_data (sample_settings 10) sample_world) = Inr t0"
    by blast
  with t have "length (transferTimings t0) = 10 \<and> length (calculationTimings t0) = 10"
    using n by auto
  then show ?thesis using b h r by (simp add: sample_environment_def)
qed

text \<open>
  Claim C4 as stated fails on the sample run: the exchanges take 5 and 7 seconds and the
  computation 3, but the transfer time of the repetition is 0 and its calculation time 8.
\<close>

theorem transfer_is_zero_counterexample:
  "fst (calculate 1 sample_environment same_data (sample_settings 1) sample_world)
     = Inr \<lparr> transferTimings = [0], calculationTimings = [8] \<rparr>
   \<and> \<not> accounted_as_contract sample_environment 0
         \<lparr> transferTimings = [0], calculationTimings = [8] \<rparr>"
  using calculate_supported [of sample_world 1 "sample_settings 1" sample_environment same_data]
  by (auto simp: sample_world_def sample_data_def sample_settings_def sample_environment_def
        accounted_as_contract_def)

text \<open>
  Claim C4, amended. In every repetition of a run of \<open>calculate\<close> that returns, the
  transfer time is 0, since nothing is accounted to it, and the calculation time is the
  time of the first exchange of blocks and of the computation together; the barrier and
  the exchange back are accounted to neither.
\<close>

theorem calculation_time_spans_exchange:
  assumes "fst (calculate bs env handler settings w) = Inr t" and "k < numRepetitions settings"
  shows "transferTimings t ! k = 0
       \<and> calculationTimings t ! k = exchange_seconds env k + compute_seconds env k"
  using calculate_returns [OF assms(1)] assms(2) by simp

theorem calculation_time_spans_exchange_witness:
  "fst (calculate 1 sample_environment same_data (sample_settings 1) sample_world)
     = Inr \<lparr> transferTimings = [0], calculationTimings = [8] \<rparr>
   \<and> 0 < numRepetitions (sample_settings 1)
   \<and> transferTimings \<lparr> transferTimings = [0], calculationTimings = [8] \<rparr> ! 0 = 0
   \<and> calculationTimings \<lparr> transferTimings = [0], calculationTimings = [8] \<rparr> ! 0
       = exchange_seconds sample_environment 0 + compute_seconds sample_environment 0"
proof -
  have r: "fst (calculate 1 sample_environment same_data (sample_settings 1) sample_world)
     = Inr \<lparr> transferTimings = [0], calculationTimings = [8] \<rparr>"
    using calculate_supported [of sample_world 1 "sample_settings 1" sample_environment same_data]
    by (auto simp: sample_world_def sample_data_def sample_settings_def sample_environment_def)
  have n: "0 < numRepetitions (sample_settings 1)" by (simp add: sample_settings_def)
  from calculation_time_spans_exchange [OF r n] r n show ?thesis by blast
qed

lemma repetition_body_error:
  "repetition_body bs env handler settings k t w = (Inl e, w') \<Longrightarrow>
     e = DataHandlerNotSupported (dataHandlerIdentifier settings)"
  by (auto simp: repetition_body_def Let_def transpose_blocks_def
           split: sum.splits DataHandlerType.splits)

lemma repetition_loop_error:
  "repetition_loop bs env handler settings ks t w = (Inl e, w') \<Longrightarrow>
     e = DataHandlerNotSupported (dataHandlerIdentifier settings)"
proof (induction ks arbitrary: t w)
  case Nil
  then show ?case by simp
next
  case (Cons k ks)
  obtain r1 w1 where b: "repetition_body bs env handler settings k t w = (r1, w1)"
    by (cases "repetition_body bs env handler settings k t w")
  show ?case
  proof (cases r1)
    case (Inl e1)
    with Cons.prems b have "e = e1" by simp
    then show ?thesis using repetition_body_error b Inl by blast
  next
    case (Inr t1)
    with Cons.prems b have "repetition_loop bs env handler settings ks t1 w1 = (Inl e, w')"
      by simp
    then show ?thesis by (rule Cons.IH)
  qed
qed

text \<open>
  Claim C5. If the block size of the data differs from \<open>BLOCK_SIZE\<close>, \<open>calculate\<close> throws
  the block size error with the data, the clock and the events as they were: before any
  repetition and any computation. If the block size is \<open>BLOCK_SIZE\<close>, \<open>calculate\<close> does not
  end with this error.
\<close>

theorem block_size_checked_first:
  "(blockSize (node_data w) \<noteq> bs \<longrightarrow>
      calculate bs env handler settings w = (Inl (BlockSizeHardcoded bs), w))
   \<and> (blockSize (node_data w) = bs \<longrightarrow>
      fst (calculate bs env handler settings w) \<noteq> Inl (BlockSizeHardcoded bs))"
proof (intro conjI impI)
  assume "blockSize (node_data w) \<noteq> bs"
  then show "calculate bs env handler settings w = (Inl (BlockSizeHardcoded bs), w)"
    by (simp add: calculate_def)
next
  assume eq: "blockSize (node_data w) = bs"
  show "fst (calculate bs env handler settings w) \<noteq> Inl (BlockSizeHardcoded bs)"
  proof
    assume "fst (calculate bs env handler settings w) = Inl (BlockSizeHardcoded bs)"
    then obtain w' where "repetition_loop bs env handler settings [0..<numRepetitions settings]
        \<lparr> transferTimings = [], calculationTimings = [] \<rparr> w = (Inl (BlockSizeHardcoded bs), w')"
      using eq by (simp add: calculate_def) (metis prod.collapse)
    from repetition_loop_error [OF this] show False by simp
  qed
qed

theorem block_size_checked_first_witness:
  "calculate 2 sample_environment same_data (sample_settings 1) sample_world
     = (Inl (BlockSizeHardcoded 2), sample_world)
   \<and> fst (calculate 1 sample_environment same_data (sample_settings 1) sample_world)
     \<noteq> Inl (BlockSizeHardcoded 1)"
  using block_size_checked_first [of sample_world 2 sample_environment same_data "sample_settings 1"]
    block_size_checked_first [of sample_world 1 sample_environment same_data "sample_settings 1"]
  by (simp add: sample_world_def sample_data_def)

lemma barrier_first_snoc:
  assumes "barrier_first tr" and "\<And>k. e = ExchangeData k \<Longrightarrow> MPI_Barrier k \<in> set tr"
  shows "barrier_first (tr @ [e])"
  unfolding barrier_first_def
proof (intro allI impI)
  fix xs ys k
  assume eq: "tr @ [e] = xs @ ExchangeData k # ys"
  show "MPI_Barrier k \<in> set xs"
  proof (cases ys rule: rev_cases)
    case Nil
    with eq have "tr = xs" "e = ExchangeData k" by simp_all
    then show ?thesis using assms(2) by simp
  next
    case (snoc ys' y)
    with eq have "tr = xs @ ExchangeData k # ys'" by simp
    then show ?thesis using assms(1) by (simp add: barrier_first_def)
  qed
qed

lemma repetition_body_barrier_first:
  assumes "repetition_body bs env handler settings k t w = (r, w')" and "barrier_first (events w)"
  shows "barrier_first (events w')"
proof -
  let ?e1 = "events w @ [MPI_Barrier k]"
  let ?e2 = "?e1 @ [ExchangeData k]"
  let ?e3 = "?e2 @ [TransposeBlocks k]"
  let ?e4 = "?e3 @ [ExchangeData k]"
  have 1: "barrier_first ?e1" using assms(2) by (rule barrier_first_snoc) simp
  have 2: "barrier_first ?e2" using 1 by (rule barrier_first_snoc) simp
  have 3: "barrier_first ?e3" using 2 by (rule barrier_first_snoc) simp
  have 4: "barrier_first ?e4" using 3 by (rule barrier_first_snoc) simp
  from repetition_body_events [OF assms(1)] show ?thesis using 2 4 by auto
qed

lemma repetition_loop_barrier_first:
  "repetition_loop bs env handler settings ks t w = (r, w') \<Longrightarrow> barrier_first (events w)
     \<Longrightarrow> barrier_first (events w')"
proof (induction ks arbitrary: t w)
  case Nil
  then show ?case by simp
next
  case (Cons k ks)
  obtain r1 w1 where b: "repetition_body bs env handler settings k t w = (r1, w1)"
    by (cases "repetition_body bs env handler settings k t w")
  have bf: "barrier_first (events w1)"
    using repetition_body_barrier_first [OF b Cons.prems(2)] .
  show ?case
  proof (cases r1)
    case (Inl e)
    with Cons.prems(1) b have "w' = w1" by simp
    then show ?thesis using bf by simp
  next
    case (Inr t1)
    with Cons.prems(1) b have "repetition_loop bs env handler settings ks t1 w1 = (r, w')"
      by simp
    then show ?thesis using Cons.IH bf by blast
  qed
qed

text \<open>
  On one node: in the events of a run of \<open>calculate\<close>, every exchange of repetition \<open>k\<close>
  has the barrier of repetition \<open>k\<close> before it.
\<close>

lemma barrier_before_exchange:
  assumes "events w = []" and "events (snd (calculate bs env handler settings w)) = xs @ ExchangeData k # ys"
  shows "MPI_Barrier k \<in> set xs"
proof -
  have e: "barrier_first (events w)" using assms(1) by (simp add: barrier_first_def)
  have "barrier_first (events (snd (calculate bs env handler settings w)))"
  proof (cases "blockSize (node_data w) \<noteq> bs")
    case True
    then show ?thesis using e by (simp add: calculate_def)
  next
    case False
    obtain r w' where l: "repetition_loop bs env handler settings [0..<numRepetitions settings]
             \<lparr> transferTimings = [], calculationTimings = [] \<rparr> w = (r, w')"
      by (metis surj_pair)
    from repetition_loop_barrier_first [OF l e] show ?thesis using False
      by (simp add: calculate_def l)
  qed
  then show ?thesis using assms(2) by (simp add: barrier_first_def)
qed

lemma events_of_take_prefix:
  assumes "i \<le> j"
  shows "prefix (events_of q (take i g)) (events_of q (take j g))"
proof -
  have "take i g = take i (take j g)" using assms by (simp add: min.absorb1)
  then have "prefix (take i g) (take j g)" using take_is_prefix [of i "take j g"] by simp
  then show ?thesis
    unfolding events_of_def by (intro map_mono_prefix filter_mono_prefix)
qed

lemma events_of_take_Suc:
  "i < length g \<Longrightarrow> g ! i = (p, e) \<Longrightarrow>
     events_of p (take (Suc i) g) = events_of p (take i g) @ [e]"
  by (simp add: events_of_def take_Suc_conv_app_nth)

lemma events_of_mem:
  assumes "e \<in> set (events_of p (take i g))"
  shows "\<exists>j<i. j < length g \<and> g ! j = (p, e)"
proof -
  from assms have "(p, e) \<in> set (take i g)" by (auto simp: events_of_def)
  then obtain j where "j < length (take i g)" "take i g ! j = (p, e)"
    unfolding in_set_conv_nth by blast
  then have "j < i \<and> j < length g \<and> g ! j = (p, e)" by simp
  then show ?thesis by blast
qed

lemma barrier_contract_exchange:
  assumes order: "\<And>xs ys. program p = xs @ ExchangeData k # ys \<Longrightarrow> MPI_Barrier k \<in> set xs"
    and contract: "barrier_contract program g"
    and i: "i < length g" and x: "g ! i = (p, ExchangeData k)"
  shows "(\<exists>j<i. g ! j = (p, MPI_Barrier k))
       \<and> (\<forall>q. reached_barrier (program q) k (events_of q (take i g)))"
proof -
  note c = contract [unfolded barrier_contract_def]
  have c1: "prefix (events_of p g) (program p)"
    using c [THEN conjunct1] by (rule spec)
  have "prefix (events_of p (take (Suc i) g)) (events_of p (take (length g) g))"
    using i by (intro events_of_take_prefix) simp
  then have "prefix (events_of p (take i g) @ [ExchangeData k]) (events_of p g)"
    using events_of_take_Suc [OF i x] by simp
  then have "prefix (events_of p (take i g) @ [ExchangeData k]) (program p)"
    using c1 by (rule prefix_order.trans)
  then obtain zs where "program p = (events_of p (take i g) @ [ExchangeData k]) @ zs"
    by (rule prefixE)
  then have "program p = events_of p (take i g) @ ExchangeData k # zs" by simp
  then have "MPI_Barrier k \<in> set (events_of p (take i g))" by (rule order)
  then have "\<exists>j<i. j < length g \<and> g ! j = (p, MPI_Barrier k)" by (rule events_of_mem)
  then obtain j where j: "j < i" "j < length g" "g ! j = (p, MPI_Barrier k)" by blast
  from j(3) have s: "snd (g ! j) = MPI_Barrier k" by simp
  have all: "reached_barrier (program q) k (events_of q (take i g))" for q
  proof -
    have r: "reached_barrier (program q) k (events_of q (take j g))"
      using c [THEN conjunct2, rule_format, OF j(2) s] .
    have m: "prefix (events_of q (take j g)) (events_of q (take i g))"
      using j(1) by (intro events_of_take_prefix) simp
    from r have r1: "MPI_Barrier k \<in> set (program q)"
      and r2: "prefix (takeWhile (\<lambda>e. e \<noteq> MPI_Barrier k) (program q))
                 (events_of q (take j g))"
      by (simp_all add: reached_barrier_def)
    from r2 m have "prefix (takeWhile (\<lambda>e. e \<noteq> MPI_Barrier k) (program q))
                      (events_of q (take i g))"
      by (rule prefix_order.trans)
    with r1 show ?thesis by (simp add: reached_barrier_def)
  qed
  from j(1,3) have "\<exists>j<i. g ! j = (p, MPI_Barrier k)" by blast
  with all show ?thesis by blast
qed

text \<open>
  Claim C7. In every repetition the barrier completes before any block is exchanged:
  when a node exchanges blocks in repetition \<open>k\<close>, the barrier of repetition \<open>k\<close> has
  returned on that node before, and every node has reached that barrier, so has done
  all its exchanges of the repetitions before \<open>k\<close>.
\<close>

theorem exchange_after_all_barriers:
  assumes fresh: "\<forall>q. events (w q) = []"
    and contract: "barrier_contract
        (\<lambda>q. events (snd (calculate bs (env q) (handler q) (settings q) (w q)))) g"
    and i: "i < length g" and x: "g ! i = (p, ExchangeData k)"
  shows "(\<exists>j<i. g ! j = (p, MPI_Barrier k))
       \<and> (\<forall>q. reached_barrier
               (events (snd (calculate bs (env q) (handler q) (settings q) (w q)))) k
               (events_of q (take i g)))"
proof -
  have f: "events (w p) = []" using fresh by (rule spec)
  show ?thesis
    by (rule barrier_contract_exchange
          [where program = "\<lambda>q. events (snd (calculate bs (env q) (handler q) (settings q) (w q)))",
           OF _ contract i x])
       (rule barrier_before_exchange [OF f])
qed

lemma sample_events_2:
  "events (snd (calculate 1 sample_environment same_data (sample_settings 2) sample_world))
     = [MPI_Barrier 0, ExchangeData 0, TransposeBlocks 0, ExchangeData 0,
        MPI_Barrier 1, ExchangeData 1, TransposeBlocks 1, ExchangeData 1]"
  by (simp add: calculate_def repetition_body_def transpose_blocks_def Let_def barrier_def
        exchangeData_def now_def sample_world_def sample_data_def sample_settings_def
        numeral_2_eq_2)

lemma sample_run_contract:
  "barrier_contract
     (\<lambda>q. [MPI_Barrier 0, ExchangeData 0, TransposeBlocks 0, ExchangeData 0,
           MPI_Barrier 1, ExchangeData 1, TransposeBlocks 1, ExchangeData 1]) sample_run"
  unfolding barrier_contract_def
proof (intro conjI allI impI)
  fix q :: bool
  show "prefix (events_of q sample_run)
          [MPI_Barrier 0, ExchangeData 0, TransposeBlocks 0, ExchangeData 0,
           MPI_Barrier 1, ExchangeData 1, TransposeBlocks 1, ExchangeData 1]"
    by (cases q) (simp_all add: events_of_def sample_run_def)
next
  fix i k and q :: bool
  assume "i < length sample_run" and b: "snd (sample_run ! i) = MPI_Barrier k"
  then have "i < 11" by (simp add: sample_run_def)
  then have "i = 0 \<or> i = 1 \<or> i = 2 \<or> i = 3 \<or> i = 4 \<or> i = 5 \<or> i = 6 \<or> i = 7 \<or> i = 8
               \<or> i = 9 \<or> i = 10"
    by arith
  with b have "i = 0 \<and> k = 0 \<or> i = 1 \<and> k = 0 \<or> i = 8 \<and> k = 1 \<or> i = 9 \<and> k = 1"
    by (auto simp: sample_run_def)
  then show "reached_barrier
          [MPI_Barrier 0, ExchangeData 0, TransposeBlocks 0, ExchangeData 0,
           MPI_Barrier 1, ExchangeData 1, TransposeBlocks 1, ExchangeData 1] k
          (events_of q (take i sample_run))"
    by (elim disjE conjE; hypsubst; cases q;
        simp add: sample_run_def reached_barrier_def events_of_def)
qed

theorem exchange_after_all_barriers_witness:
  "events sample_world = []
   \<and> barrier_contract
       (\<lambda>q. events (snd (calculate 1 sample_environment same_data (sample_settings 2)
                           sample_world))) sample_run
   \<and> 10 < length sample_run \<and> sample_run ! 10 = (True, ExchangeData 1)
   \<and> reached_barrier
       (events (snd (calculate 1 sample_environment same_data (sample_settings 2) sample_world)))
       1 (events_of False (take 10 sample_run))"
proof -
  have f: "\<forall>q::bool. events sample_world = []" by (simp add: sample_world_def)
  have c: "barrier_contract
       (\<lambda>q::bool. events (snd (calculate 1 sample_environment same_data (sample_settings 2)
                           sample_world))) sample_run"
    using sample_run_contract by (simp only: sample_events_2)
  have i: "10 < length sample_run" by (simp add: sample_run_def)
  have x: "sample_run ! 10 = (True, ExchangeData 1)" by (simp add: sample_run_def)
  from exchange_after_all_barriers
    [where w = "\<lambda>q. sample_world" and env = "\<lambda>q. sample_environment"
       and handler = "\<lambda>q. same_data" and settings = "\<lambda>q. sample_settings 2" and bs = 1,
     OF f c i x]
  show ?thesis using f c i x by blast
qed

section \<open>Properties of the LINPACK execution\<close>

lemma kernel_repetition_effect:
  "\<exists>st'. kernel_repetition rt n blocks i (ts, st) = (ts @ [kernel_seconds rt i], st')
     \<and> host_A st' = host_A st \<and> host_b st' = host_b st \<and> host_ipvt st' = host_ipvt st
     \<and> commands st' = commands st @ [EnqueueWriteBuffer_a (take (n * n) (host_A st)),
                                      EnqueueTask_gefa (take (n * n) (host_A st))]"
  by (simp add: kernel_repetition_def enqueueWriteBuffer_a_def enqueueTask_gefa_def Let_def
           split: prod.splits)

lemma kernel_loop_effect:
  "\<exists>st'. fold (kernel_repetition rt n blocks) [0..<r] ([], st)
            = (map (kernel_seconds rt) [0..<r], st')
     \<and> host_A st' = host_A st \<and> host_b st' = host_b st \<and> host_ipvt st' = host_ipvt st
     \<and> commands st' = commands st
          @ concat (map (\<lambda>i. [EnqueueWriteBuffer_a (take (n * n) (host_A st)),
                                EnqueueTask_gefa (take (n * n) (host_A st))]) [0..<r])"
proof (induction r)
  case 0
  then show ?case by simp
next
  case (Suc r)
  then obtain st1 where 1:
    "fold (kernel_repetition rt n blocks) [0..<r] ([], st) = (map (kernel_seconds rt) [0..<r], st1)"
    "host_A st1 = host_A st" "host_b st1 = host_b st" "host_ipvt st1 = host_ipvt st"
    "commands st1 = commands st
          @ concat (map (\<lambda>i. [EnqueueWriteBuffer_a (take (n * n) (host_A st)),
                                EnqueueTask_gefa (take (n * n) (host_A st))]) [0..<r])"
    by blast
  obtain st2 where 2:
    "kernel_repetition rt n blocks r (map (kernel_seconds rt) [0..<r], st1)
       = (map (kernel_seconds rt) [0..<r] @ [kernel_seconds rt r], st2)"
    "host_A st2 = host_A st1" "host_b st2 = host_b st1" "host_ipvt st2 = host_ipvt st1"
    "commands st2 = commands st1 @ [EnqueueWriteBuffer_a (take (n * n) (host_A st1)),
                                      EnqueueTask_gefa (take (n * n) (host_A st1))]"
    using kernel_repetition_effect by blast
  show ?case
    by (rule exI [of _ st2]) (simp add: 1 2)
qed

lemma execute_kernels_effect:
  "\<exists>st'. execute_kernels rt lg config st = (map (kernel_seconds rt) [0..<repetitions config], st')
     \<and> host_A st' = host_A st \<and> host_b st' = host_b st \<and> host_ipvt st' = host_ipvt st
     \<and> commands st' = commands st
          @ concat (map (\<lambda>i. [EnqueueWriteBuffer_a
                                  (take (matrixSize config * matrixSize config) (host_A st)),
                                EnqueueTask_gefa
                                  (take (matrixSize config * matrixSize config) (host_A st))])
                        [0..<repetitions config])"
  unfolding execute_kernels_def by (rule kernel_loop_effect)

lemma kernel_inputs_append:
  "kernel_inputs (cs @ ds) = kernel_inputs cs @ kernel_inputs ds"
  by (induction cs rule: kernel_inputs.induct) simp_all

lemma kernel_inputs_repetitions:
  "kernel_inputs (concat (map (\<lambda>i. [EnqueueWriteBuffer_a a, EnqueueTask_gefa a]) [0..<r]))
     = replicate r a"
  by (induction r) (simp_all add: kernel_inputs_append replicate_append_same)

lemma calculate_final_state:
  assumes "err_kernel rt = CL_SUCCESS" and "err_arg0 rt = CL_SUCCESS"
    and "err_arg1 rt = CL_SUCCESS" and "err_arg2 rt = CL_SUCCESS"
  shows "snd (linpack_calculate rt gesl_ref lg config st)
           = solve gesl_ref (matrixSize config)
               (read_back (matrixSize config) (snd (execute_kernels rt lg config st)))"
  using assms by (simp add: linpack_calculate_def split: prod.splits)

text \<open>
  Claim C9. When the kernel has been set up, every repetition writes the host matrix
  \<open>A\<close> to \<open>Buffer_a\<close> before it starts the kernel, so every launch of the kernel starts
  from the same contents, the first \<open>matrixSize * matrixSize\<close> values of \<open>A\<close>; the
  repetitions leave the host arrays \<open>A\<close>, \<open>b\<close> and \<open>ipvt\<close> as they were; after the last
  repetition the two buffers are read back once and \<open>gesl_ref\<close> is applied once, to the
  matrix and the pivots read back and to \<open>b\<close>.
\<close>

theorem linpack_repetitions_restart_from_A:
  assumes "err_kernel rt = CL_SUCCESS" and "err_arg0 rt = CL_SUCCESS"
    and "err_arg1 rt = CL_SUCCESS" and "err_arg2 rt = CL_SUCCESS"
    and "commands st = []"
  shows "host_A (snd (execute_kernels rt lg config st)) = host_A st
       \<and> host_b (snd (execute_kernels rt lg config st)) = host_b st
       \<and> host_ipvt (snd (execute_kernels rt lg config st)) = host_ipvt st
       \<and> kernel_inputs (commands (snd (linpack_calculate rt gesl_ref lg config st)))
           = replicate (repetitions config)
               (take (matrixSize config * matrixSize config) (host_A st))
       \<and> commands (snd (linpack_calculate rt gesl_ref lg config st))
           = concat (map (\<lambda>i. [EnqueueWriteBuffer_a
                                   (take (matrixSize config * matrixSize config) (host_A st)),
                                 EnqueueTask_gefa
                                   (take (matrixSize config * matrixSize config) (host_A st))])
                         [0..<repetitions config])
             @ [EnqueueReadBuffer_a, EnqueueReadBuffer_pivot, Gesl_ref]
       \<and> (host_A (snd (linpack_calculate rt gesl_ref lg config st)),
          host_b (snd (linpack_calculate rt gesl_ref lg config st)),
          host_ipvt (snd (linpack_calculate rt gesl_ref lg config st)))
           = gesl_ref
               (take (matrixSize config * matrixSize config)
                     (Buffer_a (snd (execute_kernels rt lg config st)))
                  @ drop (matrixSize config * matrixSize config) (host_A st))
               (host_b st)
               (take (matrixSize config) (Buffer_pivot (snd (execute_kernels rt lg config st)))
                  @ drop (matrixSize config) (host_ipvt st))
               (matrixSize config) (matrixSize config)"
proof -
  obtain st' where e:
    "execute_kernels rt lg config st = (map (kernel_seconds rt) [0..<repetitions config], st')"
    "host_A st' = host_A st" "host_b st' = host_b st" "host_ipvt st' = host_ipvt st"
    "commands st' = commands st
          @ concat (map (\<lambda>i. [EnqueueWriteBuffer_a
                                  (take (matrixSize config * matrixSize config) (host_A st)),
                                EnqueueTask_gefa
                                  (take (matrixSize config * matrixSize config) (host_A st))])
                        [0..<repetitions config])"
    using execute_kernels_effect by blast
  have f: "snd (linpack_calculate rt gesl_ref lg config st)
             = solve gesl_ref (matrixSize config) (read_back (matrixSize config) st')"
    using calculate_final_state [OF assms(1-4)] by (simp add: e(1))
  have c: "commands (snd (linpack_calculate rt gesl_ref lg config st))
             = commands st' @ [EnqueueReadBuffer_a, EnqueueReadBuffer_pivot, Gesl_ref]"
    by (simp add: f solve_def read_back_def split: prod.splits)
  have h: "(host_A (snd (linpack_calculate rt gesl_ref lg config st)),
            host_b (snd (linpack_calculate rt gesl_ref lg config st)),
            host_ipvt (snd (linpack_calculate rt gesl_ref lg config st)))
           = gesl_ref
               (take (matrixSize config * matrixSize config) (Buffer_a st')
                  @ drop (matrixSize config * matrixSize config) (host_A st))
               (host_b st)
               (take (matrixSize config) (Buffer_pivot st') @ drop (matrixSize config) (host_ipvt st))
               (matrixSize config) (matrixSize config)"
    by (simp add: f solve_def read_back_def e(2-4) split: prod.splits)
  show ?thesis
    using assms(5) h
    by (simp add: e c kernel_inputs_append kernel_inputs_repetitions)
qed

theorem linpack_repetitions_restart_from_A_witness:
  "err_kernel sample_runtime = CL_SUCCESS \<and> err_arg0 sample_runtime = CL_SUCCESS
   \<and> err_arg1 sample_runtime = CL_SUCCESS \<and> err_arg2 sample_runtime = CL_SUCCESS
   \<and> commands sample_linpack_state = []
   \<and> host_A (snd (execute_kernels sample_runtime 1 sample_config sample_linpack_state))
       = [4, 1, 1, 3]
   \<and> kernel_inputs
        (commands (snd (linpack_calculate sample_runtime sample_gesl 1 sample_config
                          sample_linpack_state)))
       = [[4, 1, 1, 3], [4, 1, 1, 3]]"
proof -
  have s: "err_kernel sample_runtime = CL_SUCCESS" "err_arg0 sample_runtime = CL_SUCCESS"
    "err_arg1 sample_runtime = CL_SUCCESS" "err_arg2 sample_runtime = CL_SUCCESS"
    by (simp_all add: sample_runtime_def CL_SUCCESS_def)
  have c: "commands sample_linpack_state = []"
    by (simp add: sample_linpack_state_def)
  have r: "replicate (repetitions sample_config)
             (take (matrixSize sample_config * matrixSize sample_config)
                (host_A sample_linpack_state)) = [[4, 1, 1, 3], [4, 1, 1, 3]]"
    by (simp add: sample_config_def sample_linpack_state_def numeral_2_eq_2)
  have a: "host_A sample_linpack_state = [4, 1, 1, 3]"
    by (simp add: sample_linpack_state_def)
  note t = linpack_repetitions_restart_from_A [OF s c, of 1 sample_config sample_gesl]
  from t have 1:
    "host_A (snd (execute_kernels sample_runtime 1 sample_config sample_linpack_state))
       = host_A sample_linpack_state"
    by (rule conjunct1)
  from t have 2:
    "kernel_inputs
        (commands (snd (linpack_calculate sample_runtime sample_gesl 1 sample_config
                          sample_linpack_state)))
       = replicate (repetitions sample_config)
           (take (matrixSize sample_config * matrixSize sample_config)
              (host_A sample_linpack_state))"
    by blast
  show ?thesis unfolding 1 2 r by (simp only: a s c simp_thms)
qed

text \<open>
  The timings of the LINPACK \<open>calculate\<close>: one entry for every repetition, the time of
  the kernel run.
\<close>

lemma linpack_timings:
  assumes "err_kernel rt = CL_SUCCESS" and "err_arg0 rt = CL_SUCCESS"
    and "err_arg1 rt = CL_SUCCESS" and "err_arg2 rt = CL_SUCCESS"
  shows "fst (linpack_calculate rt gesl_ref lg config st)
           = Inr \<lparr> timings = map (kernel_seconds rt) [0..<repetitions config] \<rparr>"
proof -
  obtain st' where e:
    "execute_kernels rt lg config st = (map (kernel_seconds rt) [0..<repetitions config], st')"
    using execute_kernels_effect by blast
  show ?thesis using assms by (simp add: linpack_calculate_def e)
qed

section \<open>Properties of the external channels\<close>

lemma float_trivially_copyable: "trivially_copyable float_representation"
proof -
  have "or (ucast (ucast v :: byte))
          (or (push_bit 8 (ucast (ucast (drop_bit 8 v) :: byte)))
              (or (push_bit 16 (ucast (ucast (drop_bit 16 v) :: byte)))
                  (push_bit 24 (ucast (ucast (drop_bit 24 v) :: byte))))) = v"
    for v :: "32 word"
  proof (rule bit_word_eqI)
    fix n :: nat
    assume "n < LENGTH(32)"
    then have n: "n < 32" by simp
    consider "n < 8" | "8 \<le> n" "n < 16" | "16 \<le> n" "n < 24" | "24 \<le> n"
      by linarith
    then show "bit (or (ucast (ucast v :: byte))
          (or (push_bit 8 (ucast (ucast (drop_bit 8 v) :: byte)))
              (or (push_bit 16 (ucast (ucast (drop_bit 16 v) :: byte)))
                  (push_bit 24 (ucast (ucast (drop_bit 24 v) :: byte))))) :: 32 word) n = bit v n"
    proof cases
      case 1
      then show ?thesis using n by (simp add: bit_simps)
    next
      case 2
      then show ?thesis using n by (auto simp: bit_simps)
    next
      case 3
      then show ?thesis using n by (auto simp: bit_simps)
    next
      case 4
      then show ?thesis using n by (auto simp: bit_simps)
    qed
  qed
  then show ?thesis
    by (simp add: trivially_copyable_def float_representation_def)
qed

lemma read_values_write:
  assumes "trivially_copyable rep"
  shows "read_values rep (to_bytes rep v @ rest) = v # read_values rep rest"
  using assms
  by (subst read_values.simps) (simp add: trivially_copyable_def)

lemma fold_fs_write:
  "fold (\<lambda>v bytes. fs_write rep bytes v) vs bytes = bytes @ concat (map (to_bytes rep) vs)"
  by (induction vs arbitrary: bytes) (simp_all add: fs_write_def)

lemma read_values_concat:
  assumes "trivially_copyable rep"
  shows "read_values rep (concat (map (to_bytes rep) vs)) = vs"
proof (induction vs)
  case Nil
  then show ?case using assms by (subst read_values.simps) (simp add: trivially_copyable_def)
next
  case (Cons v vs)
  then show ?case by (simp add: read_values_write [OF assms])
qed

text \<open>
  Claim C6. Whatever sequence of values of a trivially copyable type is written to the
  file of a channel, reading the file back with \<open>getDataFromExternalChannel\<close> returns that
  sequence: the same values in the same order, and as many.
\<close>

theorem channel_round_trip:
  assumes "trivially_copyable rep"
  shows "getDataFromExternalChannel rep
           (write_file rep files (channel_file channel_id output_channel) vs)
           channel_id output_channel
         = vs"
  using read_values_concat [OF assms]
  by (simp add: getDataFromExternalChannel_def write_file_def fold_fs_write)

theorem channel_round_trip_witness:
  "trivially_copyable float_representation
   \<and> getDataFromExternalChannel float_representation
        (write_file float_representation Map.empty (channel_file 1 True) [1, 2, 3]) 1 True
       = [1, 2, 3]"
  using channel_round_trip [OF float_trivially_copyable, of Map.empty 1 True "[1, 2, 3]"]
    float_trivially_copyable
  by simp

text \<open>
  In particular the tests read back from every input channel the panel that
  \<open>setupInputChannels\<close> has written there.
\<close>

lemma to_string_digits:
  "to_string 0 = ''0''" "to_string 1 = ''1''" "to_string 2 = ''2''" "to_string 3 = ''3''"
  by (simp_all add: to_string.simps)

lemma channels: "[0..<numberOfChannels] = [0, 1, 2, 3]"
  by (simp add: numberOfChannels_def upt_rec)

lemma setupInputChannels_read_back:
  assumes "trivially_copyable rep" and "channel_id < numberOfChannels"
  shows "getDataFromExternalChannel rep (setupInputChannels rep B chunk n A files)
           channel_id False
         = panel_values B chunk n A"
proof -
  from assms(2) consider "channel_id = 0" | "channel_id = 1" | "channel_id = 2"
    | "channel_id = 3"
    unfolding numberOfChannels_def by linarith
  then show ?thesis
    using read_values_concat [OF assms(1)]
    by cases
      (simp_all add: setupInputChannels_def channels getDataFromExternalChannel_def
         channel_file_def write_file_def to_string_digits fold_fs_write channelInName_def)
qed

lemma number_values_sum:
  "number_values B chunk = (\<Sum>i<B. B - (i div chunk) * chunk)"
proof -
  have "fold (\<lambda>i number_values. number_values + (B - (i div chunk) * chunk)) [0..<m] 0
          = (\<Sum>i<m. B - (i div chunk) * chunk)" for m
    by (induction m) simp_all
  then show ?thesis by (simp add: number_values_def)
qed

lemma length_column:
  "length (fold (\<lambda>jj written. written @ [A (offset n jj ii)]) js written)
     = length written + length js"
  by (induction js arbitrary: written) simp_all

lemma length_columns:
  "length (fold (\<lambda>ii. fold (\<lambda>jj written. written @ [A (offset n jj ii)])
                       [(ii div chunk) * chunk..<B]) [0..<m] written)
     = length written + (\<Sum>i<m. B - (i div chunk) * chunk)"
  by (induction m) (simp_all add: length_column)

lemma length_panel_values:
  "length (panel_values B chunk n A) = number_values B chunk"
  by (simp add: panel_values_def length_columns number_values_sum)

lemma to_string_Suc_0: "to_string (Suc 0) = ''1''"
  by (simp add: to_string.simps)

lemma output_files_empty:
  "channel_id < numberOfChannels \<Longrightarrow>
     setupInputChannels rep B chunk n A (setupExternalChannelFiles files)
       (channel_file channel_id True) = Some []"
proof -
  assume "channel_id < numberOfChannels"
  then consider "channel_id = 0" | "channel_id = 1" | "channel_id = 2" | "channel_id = 3"
    unfolding numberOfChannels_def by linarith
  then show ?thesis
    by cases
      (simp_all add: setupInputChannels_def setupExternalChannelFiles_def channels
         channel_file_def write_file_def to_string_digits to_string_Suc_0 channelInName_def
         channelOutName_def)
qed

lemma length_read_values:
  assumes "trivially_copyable rep"
  shows "read_values rep (fold (\<lambda>v bytes. fs_write rep bytes v) vs []) = vs"
  using read_values_concat [OF assms] by (simp add: fold_fs_write)

lemma send_other:
  "channel_file c True \<noteq> channel_file c' True \<Longrightarrow>
     send rep files c vs (channel_file c' True) = files (channel_file c' True)"
  by (simp add: send_def)

lemma send_read:
  assumes "trivially_copyable rep" and "files (channel_file c True) = Some []"
  shows "getDataFromExternalChannel rep (send rep files c vs) c True = vs"
  using assms(2) length_read_values [OF assms(1)]
  by (simp add: getDataFromExternalChannel_def send_def)

lemma send_read_other:
  "channel_file c True \<noteq> channel_file c' True \<Longrightarrow>
     getDataFromExternalChannel rep (send rep files c vs) c' True
       = getDataFromExternalChannel rep files c' True"
  by (simp add: getDataFromExternalChannel_def send_other)

lemma sends_read:
  assumes rep: "trivially_copyable rep"
    and empty: "files (channel_file 0 True) = Some []" "files (channel_file 1 True) = Some []"
      "files (channel_file 2 True) = Some []" "files (channel_file 3 True) = Some []"
  shows "getDataFromExternalChannel rep
           (send rep (send rep (send rep (send rep files 0 a) 1 b) 2 c) 3 d) 0 True = a"
    and "getDataFromExternalChannel rep
           (send rep (send rep (send rep (send rep files 0 a) 1 b) 2 c) 3 d) 1 True = b"
    and "getDataFromExternalChannel rep
           (send rep (send rep (send rep (send rep files 0 a) 1 b) 2 c) 3 d) 2 True = c"
    and "getDataFromExternalChannel rep
           (send rep (send rep (send rep (send rep files 0 a) 1 b) 2 c) 3 d) 3 True = d"
proof -
  have n: "channel_file 0 True \<noteq> channel_file 1 True"
    "channel_file 0 True \<noteq> channel_file 2 True" "channel_file 0 True \<noteq> channel_file 3 True"
    "channel_file 1 True \<noteq> channel_file 2 True" "channel_file 1 True \<noteq> channel_file 3 True"
    "channel_file 2 True \<noteq> channel_file 3 True"
    by (simp_all add: channel_file_def to_string_digits to_string_Suc_0)
  have "getDataFromExternalChannel rep
           (send rep (send rep (send rep (send rep files 0 a) 1 b) 2 c) 3 d) 0 True
        = getDataFromExternalChannel rep (send rep files 0 a) 0 True"
    by (simp only: send_read_other [OF n(3) [symmetric]] send_read_other [OF n(2) [symmetric]]
          send_read_other [OF n(1) [symmetric]])
  then show "getDataFromExternalChannel rep
           (send rep (send rep (send rep (send rep files 0 a) 1 b) 2 c) 3 d) 0 True = a"
    by (simp only: send_read [where files = files and c = 0, OF rep empty(1)])
  have "send rep files 0 a (channel_file 1 True) = Some []"
    by (simp only: send_other [OF n(1)] empty(2))
  then have "getDataFromExternalChannel rep (send rep (send rep files 0 a) 1 b) 1 True = b"
    by (rule send_read [where files = "send rep files 0 a" and c = 1, OF rep])
  then show "getDataFromExternalChannel rep
           (send rep (send rep (send rep (send rep files 0 a) 1 b) 2 c) 3 d) 1 True = b"
    by (simp only: send_read_other [OF n(5) [symmetric]] send_read_other [OF n(4) [symmetric]])
  have "send rep (send rep files 0 a) 1 b (channel_file 2 True) = Some []"
    by (simp only: send_other [OF n(4)] send_other [OF n(2)] empty(3))
  then have "getDataFromExternalChannel rep (send rep (send rep (send rep files 0 a) 1 b) 2 c)
               2 True = c"
    by (rule send_read [where files = "send rep (send rep files 0 a) 1 b" and c = 2, OF rep])
  then show "getDataFromExternalChannel rep
           (send rep (send rep (send rep (send rep files 0 a) 1 b) 2 c) 3 d) 2 True = c"
    by (simp only: send_read_other [OF n(6) [symmetric]])
  have "send rep (send rep (send rep files 0 a) 1 b) 2 c (channel_file 3 True) = Some []"
    by (simp only: send_other [OF n(6)] send_other [OF n(5)] send_other [OF n(3)] empty(4))
  then show "getDataFromExternalChannel rep
           (send rep (send rep (send rep (send rep files 0 a) 1 b) 2 c) 3 d) 3 True = d"
    by (rule send_read
          [where files = "send rep (send rep (send rep files 0 a) 1 b) 2 c" and c = 3, OF rep])
qed

text \<open>
  Claim C3. A Top kernel with block size \<open>B\<close> and chunk size \<open>chunk\<close> whose west input
  holds the panel of the tests sends, on its east channel, as many values as the sum over
  \<open>i < B\<close> of \<open>B - (i div chunk) * chunk\<close>, on its south channel \<open>B * B\<close> values, and none on
  its north and west channels: these are the numbers of values that the tests read back
  from the output channels 1, 2, 0 and 3.
\<close>

theorem top_channel_counts:
  assumes "trivially_copyable rep" and "0 < chunk"
  shows "map_option
           (\<lambda>(updated, files').
              (length (getDataFromExternalChannel rep files' 0 True),
               length (getDataFromExternalChannel rep files' 1 True),
               length (getDataFromExternalChannel rep files' 2 True),
               length (getDataFromExternalChannel rep files' 3 True)))
           (execute_top_update rep B chunk eliminate block
              (setupInputChannels rep B chunk B A (setupExternalChannelFiles files)))
         = Some (0, \<Sum>i<B. B - (i div chunk) * chunk, B * B, 0)"
proof -
  let ?files = "setupInputChannels rep B chunk B A (setupExternalChannelFiles files)"
  let ?panel = "panel_values B chunk B A"
  let ?updated = "eliminate block ?panel"
  have input: "getDataFromExternalChannel rep ?files 3 False = ?panel"
    by (rule setupInputChannels_read_back [OF assms(1)]) (simp add: numberOfChannels_def)
  have empty: "?files (channel_file 0 True) = Some []" "?files (channel_file 1 True) = Some []"
    "?files (channel_file 2 True) = Some []" "?files (channel_file 3 True) = Some []"
    by (rule output_files_empty, simp add: numberOfChannels_def)+
  have top: "top_update B chunk eliminate block ?panel =
      Some (?updated, \<lparr> to_top = [], to_right = ?panel,
                          to_bottom = map ?updated [0..<B * B], to_left = [] \<rparr>)"
    by (simp add: top_update_def length_panel_values Let_def)
  have run: "execute_top_update rep B chunk eliminate block ?files =
      Some (?updated,
            send rep (send rep (send rep (send rep ?files 0 []) 1 ?panel)
                        2 (map ?updated [0..<B * B])) 3 [])"
    by (simp only: execute_top_update_def input top option.case prod.case
          channel_output.simps)
  show ?thesis
    by (simp only: run sends_read [OF assms(1) empty] option.map prod.case)
       (simp add: length_panel_values number_values_sum)
qed

theorem top_channel_counts_witness:
  "trivially_copyable float_representation \<and> 0 < CHUNK 3
   \<and> map_option
        (\<lambda>(updated, files').
           (length (getDataFromExternalChannel float_representation files' 0 True),
            length (getDataFromExternalChannel float_representation files' 1 True),
            length (getDataFromExternalChannel float_representation files' 2 True),
            length (getDataFromExternalChannel float_representation files' 3 True)))
        (execute_top_update float_representation (BLOCK_SIZE 4) (CHUNK 3) keep_block zero_block
           (setupInputChannels float_representation (BLOCK_SIZE 4) (CHUNK 3) (BLOCK_SIZE 4)
              zero_block (setupExternalChannelFiles Map.empty)))
       = Some (0, 192, 256, 0)"
proof -
  have c: "0 < CHUNK 3" by (simp add: CHUNK_def)
  have s: "(\<Sum>i<BLOCK_SIZE 4. BLOCK_SIZE 4 - (i div CHUNK 3) * CHUNK 3) = 192"
    by (simp add: BLOCK_SIZE_def CHUNK_def lessThan_nat_numeral lessThan_Suc)
  have b: "BLOCK_SIZE 4 * BLOCK_SIZE 4 = 256" by (simp add: BLOCK_SIZE_def)
  from top_channel_counts [OF float_trivially_copyable c,
      of "BLOCK_SIZE 4" keep_block zero_block zero_block Map.empty]
  show ?thesis using c float_trivially_copyable by (simp only: s b)
qed

end
